theory Spec2Isabelle
  imports Complex_Main "HOL-Library.Sublist" "HOL-Library.Multiset"
    "HOL-Library.Char_ord" "HOL-Library.List_Lexorder"
begin

text \<open>
  The node table of the dashboard (its filter, sort, deduplication and pagination, and
  the health score cell) and the map layer (the marker icon and the placement of popups),
  as functions of HOL, and the properties of the specification that they decide.
\<close>

section \<open>JavaScript numbers\<close>

text \<open>
  A JavaScript \<open>number\<close> is a finite value, one of the two infinities, or NaN; the sign
  of zero is not modelled.  A sum, a product or a quotient of finite numbers is rounded to
  a double, and is an infinity when it overflows: that rounding is \<open>fl\<close>, a parameter
  of every function that computes one.  A difference is kept exact: the code only sorts
  by differences, the sort reads only their sign, and the rounding and the overflow of a
  difference of two doubles keep its sign.  The special values follow IEEE 754.
\<close>

datatype jsnum = Num real | PInf | NInf | NaN

fun jneg :: "jsnum \<Rightarrow> jsnum" where
  "jneg (Num r) = Num (- r)"
| "jneg PInf = NInf"
| "jneg NInf = PInf"
| "jneg NaN = NaN"

fun jsub :: "jsnum \<Rightarrow> jsnum \<Rightarrow> jsnum" where
  "jsub NaN _ = NaN"
| "jsub _ NaN = NaN"
| "jsub (Num a) (Num b) = Num (a - b)"
| "jsub (Num a) PInf = NInf"
| "jsub (Num a) NInf = PInf"
| "jsub PInf PInf = NaN"
| "jsub PInf _ = PInf"
| "jsub NInf NInf = NaN"
| "jsub NInf _ = NInf"

fun jadd :: "(real \<Rightarrow> jsnum) \<Rightarrow> jsnum \<Rightarrow> jsnum \<Rightarrow> jsnum" where
  "jadd fl NaN _ = NaN"
| "jadd fl _ NaN = NaN"
| "jadd fl (Num a) (Num b) = fl (a + b)"
| "jadd fl (Num a) b = b"
| "jadd fl a (Num b) = a"
| "jadd fl a b = (if a = b then a else NaN)"

fun jge :: "jsnum \<Rightarrow> jsnum \<Rightarrow> bool" where
  "jge NaN _ = False"
| "jge _ NaN = False"
| "jge (Num a) (Num b) = (b \<le> a)"
| "jge PInf _ = True"
| "jge _ NInf = True"
| "jge _ _ = False"

text \<open>\<open>v > 0\<close> and \<open>v < 0\<close>; both are false on NaN.\<close>

fun jpos :: "jsnum \<Rightarrow> bool" where
  "jpos (Num r) = (0 < r)"
| "jpos PInf = True"
| "jpos NInf = False"
| "jpos NaN = False"

fun jnegative :: "jsnum \<Rightarrow> bool" where
  "jnegative (Num r) = (r < 0)"
| "jnegative PInf = False"
| "jnegative NInf = True"
| "jnegative NaN = False"

fun jmul :: "(real \<Rightarrow> jsnum) \<Rightarrow> jsnum \<Rightarrow> jsnum \<Rightarrow> jsnum" where
  "jmul fl NaN _ = NaN"
| "jmul fl _ NaN = NaN"
| "jmul fl (Num a) (Num b) = fl (a * b)"
| "jmul fl (Num a) b = (if a = 0 then NaN else if 0 < a then b else jneg b)"
| "jmul fl a (Num b) = (if b = 0 then NaN else if 0 < b then a else jneg a)"
| "jmul fl a b = (if a = b then PInf else NInf)"

fun jdiv :: "(real \<Rightarrow> jsnum) \<Rightarrow> jsnum \<Rightarrow> jsnum \<Rightarrow> jsnum" where
  "jdiv fl NaN _ = NaN"
| "jdiv fl _ NaN = NaN"
| "jdiv fl (Num a) (Num b) =
     (if b = 0 then (if a = 0 then NaN else if 0 < a then PInf else NInf)
      else fl (a / b))"
| "jdiv fl (Num a) _ = Num 0"
| "jdiv fl a (Num b) = (if 0 \<le> b then a else jneg a)"
| "jdiv fl _ _ = NaN"

text \<open>Truthiness of a number: \<open>0\<close> and NaN are falsy.\<close>

fun truthy :: "jsnum \<Rightarrow> bool" where
  "truthy (Num r) = (r \<noteq> 0)"
| "truthy NaN = False"
| "truthy _ = True"

definition finite_num :: "jsnum \<Rightarrow> bool" where
  "finite_num v = (case v of Num _ \<Rightarrow> True | _ \<Rightarrow> False)"

text \<open>\<open>v || 0\<close> on an optional number: absent, \<open>0\<close> and NaN all give \<open>0\<close>.\<close>

definition or_zero :: "jsnum option \<Rightarrow> jsnum" where
  "or_zero v = (case v of None \<Rightarrow> Num 0 | Some x \<Rightarrow> if truthy x then x else Num 0)"

section \<open>Strings\<close>

text \<open>
  Strings are lists of 8-bit characters, and \<open>toLowerCase\<close> and \<open>trim\<close> are those
  of JavaScript on ASCII only: \<open>lower_char\<close> maps \<open>A\<close> to \<open>Z\<close> and nothing else, and
  \<open>is_space\<close> has the characters 9 to 13 and 32, not the no-break space and the other
  white space of Unicode that \<open>trim\<close> strips.  No property below depends on a search
  text.  \<open>includes_str\<close> is the method \<open>includes\<close> of strings.  \<open>localeCompare\<close>
  depends on the collation of the host, so every function that sorts takes it as the
  parameter \<open>lc\<close>.
\<close>

definition lower_char :: "char \<Rightarrow> char" where
  "lower_char c =
     (if (65::nat) \<le> of_char c \<and> of_char c \<le> (90::nat) then char_of (of_char c + (32::nat)) else c)"

definition toLowerCase :: "string \<Rightarrow> string" where
  "toLowerCase s = map lower_char s"

definition is_space :: "char \<Rightarrow> bool" where
  "is_space c = (of_char c \<in> {9, 10, 11, 12, 13, 32 :: nat})"

definition trim :: "string \<Rightarrow> string" where
  "trim s = rev (dropWhile is_space (rev (dropWhile is_space s)))"

fun includes_str :: "string \<Rightarrow> string \<Rightarrow> bool" where
  "includes_str [] sub = (sub = [])"
| "includes_str (c # cs) sub = (prefix sub (c # cs) \<or> includes_str cs sub)"

definition or_empty :: "string option \<Rightarrow> string" where
  "or_empty s = (case s of None \<Rightarrow> [] | Some t \<Rightarrow> t)"

section \<open>Status, tier and dates\<close>

datatype status = Online | Offline

datatype tier = Excellent | Good | Poor

text \<open>
  The time value of a date, as \<open>getTime()\<close> returns it: milliseconds since the epoch, or
  \<open>None\<close> for NaN, which is what an unparsable date string or an invalid \<open>Date\<close> gives.
\<close>

type_synonym timeValue = "int option"

definition getTime :: "timeValue \<Rightarrow> jsnum" where
  "getTime t = (case t of None \<Rightarrow> NaN | Some ms \<Rightarrow> Num (real_of_int ms))"

section \<open>Map markers and popups\<close>

text \<open>
  A node of the map.  \<open>lastSeen\<close> is a string in the source and is only read through
  \<open>new Date(node.lastSeen).getTime()\<close>; the record holds that time value.
\<close>

record MapNode =
  pubkey :: string
  lat :: jsnum
  lng :: jsnum
  country :: string
  region :: string
  status :: status
  healthScore :: jsnum
  uptime24h :: jsnum
  storageUtilization :: jsnum
  version :: string
  lastSeen :: timeValue

text \<open>
  \<open>createMarkerIcon\<close> occurs twice in the source, in the marker component and in the
  clustering layer, with the same body.  \<open>now\<close> is the value of \<open>Date.now()\<close>.
\<close>

definition isRecent :: "int \<Rightarrow> MapNode \<Rightarrow> bool" where
  "isRecent now node =
     (let fiveMinutesAgo = now - 5 * 60 * 1000
      in status node = Online
         \<and> (case lastSeen node of None \<Rightarrow> False | Some ms \<Rightarrow> fiveMinutesAgo < ms))"

record DivIcon =
  pulseClass :: string
  color :: string
  markerSize :: jsnum

definition createMarkerIcon :: "(real \<Rightarrow> jsnum) \<Rightarrow> int \<Rightarrow> MapNode \<Rightarrow> DivIcon" where
  "createMarkerIcon fl now node =
     (let color =
            (if status node = Offline then ''hsl(0,0%,50%)''
             else if jge (healthScore node) (Num 85) then ''hsl(142,71%,45%)''
             else if jge (healthScore node) (Num 60) then ''hsl(38,92%,50%)''
             else ''hsl(0,84%,60%)'');
          baseSize = Num 20;
          sizeVariation = jmul fl (jdiv fl (storageUtilization node) (Num 100)) (Num 20);
          markerSize = jadd fl baseSize sizeVariation;
          pulseClass = (if isRecent now node then ''animate-pulse'' else [])
      in \<lparr>pulseClass = pulseClass, color = color, markerSize = markerSize\<rparr>)"

text \<open>
  \<open>adjustPopupPosition\<close>, the body of its timer callback: from the size of the map and
  the container point of the marker it chooses one of three offsets and calls
  \<open>popup.setOffset\<close> with it.  Screen coordinates are finite.

  The popup is the one that \<open>bindPopup\<close> made, with the options \<open>maxWidth: 300\<close> and
  \<open>offset: L.point(0, -10)\<close>.  \<open>setOffset\<close> is the method of that name of the popup,
  if it has one: no source defines it, and the class of the popup, the \<open>Popup\<close> of
  Leaflet, has no such method, which is \<open>None\<close>.  Calling a method that an object does not
  have raises a \<open>TypeError\<close>; nothing catches it in the callback, which ends there, and
  the popup is as it was.  \<open>popup.update()\<close>, which follows the call, changes no option.
\<close>

datatype js_error = TypeError

record PopupOptions =
  maxWidth :: "real option"
  offset :: "real \<times> real"

record Popup =
  options :: PopupOptions

definition bindPopup :: Popup where
  "bindPopup = \<lparr>options = \<lparr>maxWidth = Some 300, offset = (0, - 10)\<rparr>\<rparr>"

record area =
  area_x :: real
  area_y :: real
  area_width :: real
  area_height :: real

definition filterArea :: "real \<times> real \<Rightarrow> area" where
  "filterArea mapSize =
     \<lparr>area_x = fst mapSize - 280, area_y = 0, area_width = 280, area_height = 350\<rparr>"

definition legendArea :: "real \<times> real \<Rightarrow> area" where
  "legendArea mapSize =
     \<lparr>area_x = 0, area_y = snd mapSize - 250, area_width = 280, area_height = 250\<rparr>"

definition isNearFilters :: "real \<times> real \<Rightarrow> real \<times> real \<Rightarrow> bool" where
  "isNearFilters mapSize markerPoint =
     (area_x (filterArea mapSize) < fst markerPoint
      \<and> snd markerPoint < area_height (filterArea mapSize))"

definition isNearLegend :: "real \<times> real \<Rightarrow> real \<times> real \<Rightarrow> bool" where
  "isNearLegend mapSize markerPoint =
     (fst markerPoint < area_width (legendArea mapSize)
      \<and> area_y (legendArea mapSize) < snd markerPoint)"

text \<open>\<open>popup.options.maxWidth || 300\<close>.\<close>

definition popupWidth :: "Popup \<Rightarrow> real" where
  "popupWidth popup =
     (case maxWidth (options popup) of None \<Rightarrow> 300 | Some w \<Rightarrow> if w \<noteq> 0 then w else 300)"

text \<open>The call \<open>popup.setOffset(point)\<close>: an error and the popup as it was, or the popup
  that the method leaves.\<close>

definition call_setOffset ::
  "(real \<times> real \<Rightarrow> Popup \<Rightarrow> Popup) option \<Rightarrow> real \<times> real \<Rightarrow> Popup \<Rightarrow> js_error option \<times> Popup"
where
  "call_setOffset setOffset point popup =
     (case setOffset of
        None \<Rightarrow> (Some TypeError, popup)
      | Some method \<Rightarrow> (None, method point popup))"

definition adjustPopupPosition ::
  "(real \<times> real \<Rightarrow> Popup \<Rightarrow> Popup) option \<Rightarrow> real \<times> real \<Rightarrow> real \<times> real \<Rightarrow> Popup
     \<Rightarrow> js_error option \<times> Popup"
where
  "adjustPopupPosition setOffset mapSize markerPoint popup =
     (if isNearFilters mapSize markerPoint
      then call_setOffset setOffset (- popupWidth popup - 30, - 10) popup
      else if isNearLegend mapSize markerPoint
      then call_setOffset setOffset (30, - 10) popup
      else call_setOffset setOffset (0, - 10) popup)"

text \<open>A \<open>setOffset\<close> that stores the point as the offset, as the calls expect of it.\<close>

definition store_offset :: "real \<times> real \<Rightarrow> Popup \<Rightarrow> Popup" where
  "store_offset point popup = popup\<lparr>options := (options popup)\<lparr>offset := point\<rparr>\<rparr>"

section \<open>Table records\<close>

text \<open>
  Modelled from the spec: the type \<open>PNode\<close> is declared in the hook \<open>usePNodes\<close>,
  which is not among the sources.  The record has the fields of the node record of the
  specification that the table component reads, under the names it reads them by, and
  optional where the component guards against their absence.  \<open>lastSeen\<close> is a date or
  a string in the source and is only read through \<open>getTime()\<close>; the record holds that
  time value.
\<close>

record PNode =
  pubkey :: string
  status :: status
  healthScore :: "jsnum option"
  tier :: "tier option"
  storageUsed :: jsnum
  storageTotal :: jsnum
  storageUtilization :: "jsnum option"
  ramUsed :: "jsnum option"
  ramTotal :: "jsnum option"
  version :: "string option"
  region :: "string option"
  ip :: "string option"
  lastSeen :: timeValue

datatype SortField =
  ByPubkey | ByStorageUsed | ByLastSeen | ByStatus | ByHealthScore | ByStorageUtilization
  | ByTier | ByVersion | ByRegion | ByRamUsed | ByRamUtilization

datatype SortDirection = Asc | Desc

datatype 'a choice = All | Only 'a

definition itemsPerPage :: nat where
  "itemsPerPage = 20"

subsection \<open>The RAM table\<close>

record ram =
  used :: jsnum
  total :: jsnum

definition ramMap_set :: "PNode \<Rightarrow> (string \<rightharpoonup> ram) \<Rightarrow> (string \<rightharpoonup> ram)" where
  "ramMap_set node ramMap =
     (case (ramUsed node, ramTotal node) of
        (Some u, Some t) \<Rightarrow> ramMap(pubkey node \<mapsto> \<lparr>used = u, total = t\<rparr>)
      | _ \<Rightarrow> ramMap)"

definition nodeRamData :: "PNode list \<Rightarrow> (string \<rightharpoonup> ram)" where
  "nodeRamData pnodes = fold ramMap_set pnodes Map.empty"

subsection \<open>The comparator\<close>

text \<open>
  The comparator of \<open>result.sort\<close>, one equation for each \<open>case\<close> of its \<open>switch\<close>.
  The fallbacks \<open>?? 2\<close> of the status rank and \<open>default\<close> of the \<open>switch\<close> have no
  value of their types to apply to; the fallback \<open>?? 3\<close> of the tier rank is the rank of
  an absent tier.
\<close>

definition statusOrder :: "status \<Rightarrow> jsnum" where
  "statusOrder s = (case s of Online \<Rightarrow> Num 0 | Offline \<Rightarrow> Num 1)"

definition tierOrder :: "tier option \<Rightarrow> jsnum" where
  "tierOrder t =
     (case t of Some Excellent \<Rightarrow> Num 0 | Some Good \<Rightarrow> Num 1 | Some Poor \<Rightarrow> Num 2
      | None \<Rightarrow> Num 3)"

text \<open>
  The body of the \<open>try\<close> block of the \<open>lastSeen\<close> case.  Neither \<open>getTime\<close> nor the
  subtraction throws, so it always completes normally (\<open>Inr\<close>); the \<open>catch\<close> branch of
  \<open>comparison\<close> below is there because the source has it.
\<close>

definition lastSeen_try :: "PNode \<Rightarrow> PNode \<Rightarrow> unit + jsnum" where
  "lastSeen_try a b =
     (let aTime = getTime (lastSeen a); bTime = getTime (lastSeen b)
      in Inr (jsub aTime bTime))"

definition storageRatio :: "(real \<Rightarrow> jsnum) \<Rightarrow> PNode \<Rightarrow> jsnum" where
  "storageRatio fl a =
     (if jpos (storageTotal a) then jdiv fl (storageUsed a) (storageTotal a) else Num 0)"

definition storageUtil :: "(real \<Rightarrow> jsnum) \<Rightarrow> PNode \<Rightarrow> jsnum" where
  "storageUtil fl a =
     (case storageUtilization a of
        Some u \<Rightarrow> u
      | None \<Rightarrow>
          (if jpos (storageTotal a)
           then jmul fl (jdiv fl (storageUsed a) (storageTotal a)) (Num 100)
           else Num 0))"

definition ramUsedOf :: "(string \<rightharpoonup> ram) \<Rightarrow> PNode \<Rightarrow> jsnum" where
  "ramUsedOf rd a = (case rd (pubkey a) of None \<Rightarrow> Num 0 | Some r \<Rightarrow> used r)"

definition ramUtil :: "(real \<Rightarrow> jsnum) \<Rightarrow> (string \<rightharpoonup> ram) \<Rightarrow> PNode \<Rightarrow> jsnum" where
  "ramUtil fl rd a =
     (case rd (pubkey a) of
        None \<Rightarrow> Num 0
      | Some r \<Rightarrow>
          if jpos (total r) then jmul fl (jdiv fl (used r) (total r)) (Num 100) else Num 0)"

definition localeCompare :: "(string \<Rightarrow> string \<Rightarrow> int) \<Rightarrow> string \<Rightarrow> string \<Rightarrow> jsnum" where
  "localeCompare lc s t = Num (real_of_int (lc s t))"

fun comparison ::
  "(real \<Rightarrow> jsnum) \<Rightarrow> (string \<Rightarrow> string \<Rightarrow> int) \<Rightarrow> (string \<rightharpoonup> ram) \<Rightarrow> SortField
     \<Rightarrow> PNode \<Rightarrow> PNode \<Rightarrow> jsnum"
where
  "comparison fl lc rd ByStorageUsed a b = jsub (storageRatio fl a) (storageRatio fl b)"
| "comparison fl lc rd ByLastSeen a b =
     (case lastSeen_try a b of Inr c \<Rightarrow> c | Inl _ \<Rightarrow> Num 0)"
| "comparison fl lc rd ByStatus a b = jsub (statusOrder (status a)) (statusOrder (status b))"
| "comparison fl lc rd ByHealthScore a b =
     jsub (or_zero (healthScore a)) (or_zero (healthScore b))"
| "comparison fl lc rd ByStorageUtilization a b = jsub (storageUtil fl a) (storageUtil fl b)"
| "comparison fl lc rd ByPubkey a b = localeCompare lc (pubkey a) (pubkey b)"
| "comparison fl lc rd ByTier a b = jsub (tierOrder (tier a)) (tierOrder (tier b))"
| "comparison fl lc rd ByVersion a b =
     localeCompare lc (or_empty (version a)) (or_empty (version b))"
| "comparison fl lc rd ByRegion a b =
     localeCompare lc (or_empty (region a)) (or_empty (region b))"
| "comparison fl lc rd ByRamUsed a b = jsub (ramUsedOf rd a) (ramUsedOf rd b)"
| "comparison fl lc rd ByRamUtilization a b = jsub (ramUtil fl rd a) (ramUtil fl rd b)"

definition compareFn ::
  "(real \<Rightarrow> jsnum) \<Rightarrow> (string \<Rightarrow> string \<Rightarrow> int) \<Rightarrow> (string \<rightharpoonup> ram) \<Rightarrow> SortField
     \<Rightarrow> SortDirection \<Rightarrow> PNode \<Rightarrow> PNode \<Rightarrow> jsnum"
where
  "compareFn fl lc rd sortField sortDirection a b =
     (if sortDirection = Asc then comparison fl lc rd sortField a b
      else jneg (comparison fl lc rd sortField a b))"

section \<open>Array.prototype.sort\<close>

text \<open>
  The sort calls its comparator through \<open>SortCompare\<close>, which turns a NaN result
  into \<open>+0\<close>.
\<close>

definition SortCompare :: "('a \<Rightarrow> 'a \<Rightarrow> jsnum) \<Rightarrow> 'a \<Rightarrow> 'a \<Rightarrow> jsnum" where
  "SortCompare comparefn x y = (case comparefn x y of NaN \<Rightarrow> Num 0 | v \<Rightarrow> v)"

text \<open>\<open>x\<close> is not after \<open>y\<close> in the order of the comparator.\<close>

definition le_js :: "('a \<Rightarrow> 'a \<Rightarrow> jsnum) \<Rightarrow> 'a \<Rightarrow> 'a \<Rightarrow> bool" where
  "le_js c x y = (\<not> jpos (SortCompare c x y))"

text \<open>
  A consistent comparator on a set of values, as the language defines it: the sign of
  the result flips with the arguments, and the order is transitive.
\<close>

definition consistent_on :: "('a \<Rightarrow> 'a \<Rightarrow> jsnum) \<Rightarrow> 'a set \<Rightarrow> bool" where
  "consistent_on c S =
     ((\<forall>x\<in>S. \<forall>y\<in>S. jpos (SortCompare c x y) = jnegative (SortCompare c y x))
      \<and> (\<forall>x\<in>S. \<forall>y\<in>S. \<forall>z\<in>S. le_js c x y \<and> le_js c y z \<longrightarrow> le_js c x z))"

subsection \<open>With a consistent comparator\<close>

text \<open>
  When the comparator is consistent on the elements of the array, the language fixes the
  result: the elements in the order of the comparator, those that compare equal in the
  order they had.  That is the result of the stable insertion sort.
\<close>

fun insort_js :: "('a \<Rightarrow> 'a \<Rightarrow> jsnum) \<Rightarrow> 'a \<Rightarrow> 'a list \<Rightarrow> 'a list" where
  "insort_js comparefn x [] = [x]"
| "insort_js comparefn x (y # ys) =
     (if jpos (SortCompare comparefn x y) then y # insort_js comparefn x ys else x # y # ys)"

definition insertion_sort :: "('a \<Rightarrow> 'a \<Rightarrow> jsnum) \<Rightarrow> 'a list \<Rightarrow> 'a list" where
  "insertion_sort comparefn xs = foldr (insort_js comparefn) xs []"

subsection \<open>With an inconsistent comparator\<close>

text \<open>
  When the comparator is not consistent (a NaN result compares equal to everything,
  which breaks transitivity), the language leaves the order to the engine.  The model
  takes the sort of V8, which is TimSort: on an array shorter than 64 elements it finds
  the run at the start of the array (\<open>CountAndMakeRun\<close>: as long as it goes on not
  descending, or strictly descending, and then reversed), and inserts each further element
  into the part before it by binary search (\<open>BinaryInsertionSort\<close>).  An array of 64
  elements or more V8 cuts into several such runs and merges them; that is not modelled,
  so under an inconsistent comparator the model has the order of the engine only below
  64 elements.  No property below reads the order of a longer array under an inconsistent
  comparator.
\<close>

fun run_asc :: "('a \<Rightarrow> 'a \<Rightarrow> jsnum) \<Rightarrow> 'a \<Rightarrow> 'a list \<Rightarrow> 'a list \<times> 'a list" where
  "run_asc comparefn previousElement [] = ([], [])"
| "run_asc comparefn previousElement (currentElement # rest) =
     (if jnegative (SortCompare comparefn currentElement previousElement)
      then ([], currentElement # rest)
      else (case run_asc comparefn currentElement rest of
              (run, rest') \<Rightarrow> (currentElement # run, rest')))"

fun run_desc :: "('a \<Rightarrow> 'a \<Rightarrow> jsnum) \<Rightarrow> 'a \<Rightarrow> 'a list \<Rightarrow> 'a list \<times> 'a list" where
  "run_desc comparefn previousElement [] = ([], [])"
| "run_desc comparefn previousElement (currentElement # rest) =
     (if \<not> jnegative (SortCompare comparefn currentElement previousElement)
      then ([], currentElement # rest)
      else (case run_desc comparefn currentElement rest of
              (run, rest') \<Rightarrow> (currentElement # run, rest')))"

text \<open>The run at the start of the array, in ascending order, and the rest of the array.\<close>

fun countAndMakeRun :: "('a \<Rightarrow> 'a \<Rightarrow> jsnum) \<Rightarrow> 'a list \<Rightarrow> 'a list \<times> 'a list" where
  "countAndMakeRun comparefn [] = ([], [])"
| "countAndMakeRun comparefn [x] = ([x], [])"
| "countAndMakeRun comparefn (elementHigh # elementLow # rest) =
     (if jnegative (SortCompare comparefn elementLow elementHigh)
      then (case run_desc comparefn elementLow rest of
              (run, rest') \<Rightarrow> (rev (elementHigh # elementLow # run), rest'))
      else (case run_asc comparefn elementLow rest of
              (run, rest') \<Rightarrow> (elementHigh # elementLow # run, rest')))"

text \<open>
  The binary search of \<open>BinaryInsertionSort\<close> for the place of \<open>pivot\<close> in \<open>ys\<close>, between
  \<open>left\<close> and \<open>right\<close>; it reads \<open>ys\<close> only below \<open>right\<close>, and is called with \<open>right\<close>
  the length of \<open>ys\<close>.
\<close>

function binarySearch :: "('a \<Rightarrow> 'a \<Rightarrow> jsnum) \<Rightarrow> 'a \<Rightarrow> 'a list \<Rightarrow> nat \<Rightarrow> nat \<Rightarrow> nat" where
  "binarySearch comparefn pivot ys left right =
     (if left < right
      then (if jnegative (SortCompare comparefn pivot (ys ! (left + (right - left) div 2)))
            then binarySearch comparefn pivot ys left (left + (right - left) div 2)
            else binarySearch comparefn pivot ys (left + (right - left) div 2 + 1) right)
      else left)"
  by pat_completeness auto
termination
  by (relation "measure (\<lambda>(comparefn, pivot, ys, left, right). right - left)") auto

declare binarySearch.simps [simp del]

definition binaryInsert :: "('a \<Rightarrow> 'a \<Rightarrow> jsnum) \<Rightarrow> 'a \<Rightarrow> 'a list \<Rightarrow> 'a list" where
  "binaryInsert comparefn pivot ys =
     (let left = binarySearch comparefn pivot ys 0 (length ys)
      in take left ys @ pivot # drop left ys)"

definition binaryInsertionSort :: "('a \<Rightarrow> 'a \<Rightarrow> jsnum) \<Rightarrow> 'a list \<Rightarrow> 'a list \<Rightarrow> 'a list" where
  "binaryInsertionSort comparefn run rest = fold (binaryInsert comparefn) rest run"

definition arrayTimSort :: "('a \<Rightarrow> 'a \<Rightarrow> jsnum) \<Rightarrow> 'a list \<Rightarrow> 'a list" where
  "arrayTimSort comparefn xs =
     (case countAndMakeRun comparefn xs of
        (run, rest) \<Rightarrow> binaryInsertionSort comparefn run rest)"

subsection \<open>The sort\<close>

definition sort_js :: "('a \<Rightarrow> 'a \<Rightarrow> jsnum) \<Rightarrow> 'a list \<Rightarrow> 'a list" where
  "sort_js comparefn xs =
     (if consistent_on comparefn (set xs) then insertion_sort comparefn xs
      else arrayTimSort comparefn xs)"

section \<open>The table pipeline\<close>

definition matchesSearch :: "string \<Rightarrow> PNode \<Rightarrow> bool" where
  "matchesSearch searchLower node =
     (includes_str (toLowerCase (pubkey node)) searchLower
      \<or> includes_str (toLowerCase (or_empty (region node))) searchLower
      \<or> includes_str (toLowerCase (or_empty (version node))) searchLower
      \<or> includes_str (toLowerCase (or_empty (ip node))) searchLower)"

text \<open>
  The deduplicating \<open>filter\<close> at the end of \<open>filteredAndSorted\<close>, with its \<open>seen\<close>
  set threaded through.
\<close>

fun dedupe_from :: "string set \<Rightarrow> PNode list \<Rightarrow> PNode list" where
  "dedupe_from seen [] = []"
| "dedupe_from seen (node # rest) =
     (if pubkey node \<in> seen then dedupe_from seen rest
      else node # dedupe_from (insert (pubkey node) seen) rest)"

definition dedupe :: "PNode list \<Rightarrow> PNode list" where
  "dedupe result = dedupe_from {} result"

record ViewState =
  search :: string
  statusFilter :: "status choice"
  tierFilter :: "tier choice"
  sortField :: SortField
  sortDirection :: SortDirection

definition filterSearch :: "ViewState \<Rightarrow> PNode list \<Rightarrow> PNode list" where
  "filterSearch vs result =
     (if trim (search vs) \<noteq> [] then filter (matchesSearch (trim (toLowerCase (search vs)))) result
      else result)"

definition filterStatus :: "ViewState \<Rightarrow> PNode list \<Rightarrow> PNode list" where
  "filterStatus vs result =
     (case statusFilter vs of All \<Rightarrow> result | Only s \<Rightarrow> filter (\<lambda>node. status node = s) result)"

definition filterTier :: "ViewState \<Rightarrow> PNode list \<Rightarrow> PNode list" where
  "filterTier vs result =
     (case tierFilter vs of All \<Rightarrow> result | Only t \<Rightarrow> filter (\<lambda>node. tier node = Some t) result)"

definition filteredAndSorted ::
  "(real \<Rightarrow> jsnum) \<Rightarrow> (string \<Rightarrow> string \<Rightarrow> int) \<Rightarrow> PNode list \<Rightarrow> ViewState \<Rightarrow> PNode list"
where
  "filteredAndSorted fl lc pnodes vs =
     dedupe
       (sort_js (compareFn fl lc (nodeRamData pnodes) (sortField vs) (sortDirection vs))
          (filterTier vs (filterStatus vs (filterSearch vs pnodes))))"

subsection \<open>Pagination\<close>

text \<open>\<open>Array.prototype.slice\<close>: a negative index counts from the end, and both are clamped.\<close>

definition slice :: "'a list \<Rightarrow> int \<Rightarrow> int \<Rightarrow> 'a list" where
  "slice xs start stop =
     (let len = int (length xs);
          k = (if start < 0 then max (len + start) 0 else min start len);
          final = (if stop < 0 then max (len + stop) 0 else min stop len)
      in take (nat (final - k)) (drop (nat k) xs))"

definition totalPages :: "'a list \<Rightarrow> int" where
  "totalPages fs = \<lceil>real (length fs) / real itemsPerPage\<rceil>"

definition paginatedNodes :: "'a list \<Rightarrow> int \<Rightarrow> 'a list" where
  "paginatedNodes fs currentPage =
     (let startIndex = (currentPage - 1) * int itemsPerPage;
          endIndex = startIndex + int itemsPerPage
      in slice fs startIndex endIndex)"

subsection \<open>Table cells\<close>

text \<open>
  What a table cell shows: a literal text, the result of \<open>v.toFixed(digits)\<close>, a number
  converted to a string, or one of these followed by a percent sign.  The conversions are
  kept symbolic: \<open>ToFixed (Num 0) 1\<close> stands for the text \<open>0.0\<close>.
\<close>

datatype cell = Text string | ToFixed jsnum nat | Number jsnum | Percent cell

definition healthScoreCell :: "PNode \<Rightarrow> cell" where
  "healthScoreCell node =
     (case healthScore node of
        None \<Rightarrow> Text ''N/A''
      | Some h \<Rightarrow> if truthy h then ToFixed h 1 else Text ''N/A'')"

text \<open>
  The cell of the storage utilization, next to it in the row.  \<open>calculatePercentage\<close> is
  imported from a module that is not among the sources and is a parameter.
\<close>

definition storageUtilizationCell ::
  "(jsnum \<Rightarrow> jsnum \<Rightarrow> jsnum \<Rightarrow> jsnum) \<Rightarrow> PNode \<Rightarrow> cell"
where
  "storageUtilizationCell calculatePercentage node =
     (case storageUtilization node of
        Some u \<Rightarrow> Percent (ToFixed u 1)
      | None \<Rightarrow>
          if jpos (storageTotal node)
          then Percent (Number (calculatePercentage (storageUsed node) (storageTotal node) (Num 1)))
          else Text ''N/A'')"

section \<open>Arrays in the heap\<close>

text \<open>
  The pipeline on references, for what it writes: the spread \<open>[...pnodes]\<close> and each
  \<open>filter\<close> allocate a new array, \<open>sort\<close> writes the array it is called on and
  returns it.  The records themselves are never written.
\<close>

type_synonym ref = nat

record heap =
  arrays :: "ref \<Rightarrow> PNode list"
  next_ref :: ref

definition alloc :: "PNode list \<Rightarrow> heap \<Rightarrow> ref \<times> heap" where
  "alloc xs h =
     (next_ref h, h\<lparr>arrays := (arrays h)(next_ref h := xs), next_ref := Suc (next_ref h)\<rparr>)"

definition spread :: "ref \<Rightarrow> heap \<Rightarrow> ref \<times> heap" where
  "spread r h = alloc (arrays h r) h"

definition array_filter :: "(PNode \<Rightarrow> bool) \<Rightarrow> ref \<Rightarrow> heap \<Rightarrow> ref \<times> heap" where
  "array_filter P r h = alloc (filter P (arrays h r)) h"

definition array_sort :: "(PNode \<Rightarrow> PNode \<Rightarrow> jsnum) \<Rightarrow> ref \<Rightarrow> heap \<Rightarrow> ref \<times> heap" where
  "array_sort comparefn r h = (r, h\<lparr>arrays := (arrays h)(r := sort_js comparefn (arrays h r))\<rparr>)"

definition array_dedupe :: "ref \<Rightarrow> heap \<Rightarrow> ref \<times> heap" where
  "array_dedupe r h = alloc (dedupe (arrays h r)) h"

definition filteredAndSorted_heap ::
  "(real \<Rightarrow> jsnum) \<Rightarrow> (string \<Rightarrow> string \<Rightarrow> int) \<Rightarrow> ref \<Rightarrow> ViewState \<Rightarrow> heap \<Rightarrow> ref \<times> heap"
where
  "filteredAndSorted_heap fl lc pnodes vs h =
     (let rd = nodeRamData (arrays h pnodes);
          (result, h) = spread pnodes h;
          (result, h) =
            (if trim (search vs) \<noteq> []
             then array_filter (matchesSearch (trim (toLowerCase (search vs)))) result h
             else (result, h));
          (result, h) =
            (case statusFilter vs of
               All \<Rightarrow> (result, h)
             | Only s \<Rightarrow> array_filter (\<lambda>node. status node = s) result h);
          (result, h) =
            (case tierFilter vs of
               All \<Rightarrow> (result, h)
             | Only t \<Rightarrow> array_filter (\<lambda>node. tier node = Some t) result h);
          (result, h) =
            array_sort (compareFn fl lc rd (sortField vs) (sortDirection vs)) result h
      in array_dedupe result h)"

section \<open>Notions used by the properties\<close>

text \<open>
  A consistent \<open>localeCompare\<close>, as the language requires it to be: the sign of the
  result flips with the arguments, and the order is transitive.
\<close>

definition consistent_lc :: "(string \<Rightarrow> string \<Rightarrow> int) \<Rightarrow> bool" where
  "consistent_lc lc =
     ((\<forall>s t. (0 < lc s t) = (lc t s < 0))
      \<and> (\<forall>s t u. lc s t \<le> 0 \<and> lc t u \<le> 0 \<longrightarrow> lc s u \<le> 0))"

text \<open>Two values compare equal: the sort sees \<open>0\<close> in both orders.\<close>

definition tied :: "('a \<Rightarrow> 'a \<Rightarrow> jsnum) \<Rightarrow> 'a \<Rightarrow> 'a \<Rightarrow> bool" where
  "tied c x y = (SortCompare c x y = Num 0 \<and> SortCompare c y x = Num 0)"

text \<open>No two positions of the list hold values that the sort sees as \<open>0\<close>.\<close>

definition no_ties :: "('a \<Rightarrow> 'a \<Rightarrow> jsnum) \<Rightarrow> 'a list \<Rightarrow> bool" where
  "no_ties c xs =
     sorted_wrt (\<lambda>x y. SortCompare c x y \<noteq> Num 0 \<and> SortCompare c y x \<noteq> Num 0) xs"

text \<open>The occurrences of \<open>x\<close> and \<open>y\<close> in a list, in their order.\<close>

definition occurrences :: "'a \<Rightarrow> 'a \<Rightarrow> 'a list \<Rightarrow> 'a list" where
  "occurrences x y xs = filter (\<lambda>z. z = x \<or> z = y) xs"

text \<open>
  From the words of the specification: a time lies within the last five minutes of the
  time of evaluation.
\<close>

definition within_last_5_minutes :: "int \<Rightarrow> int \<Rightarrow> bool" where
  "within_last_5_minutes now ms = (now - 5 * 60 * 1000 < ms \<and> ms \<le> now)"

text \<open>A comparison of strings by code unit, one consistent \<open>localeCompare\<close>.\<close>

definition ordinal_lc :: "string \<Rightarrow> string \<Rightarrow> int" where
  "ordinal_lc s t = (if s < t then - 1 else if s = t then 0 else 1)"

text \<open>A rounding that leaves a number as it is; it is exact on the numbers of the examples.\<close>

definition example_fl :: "real \<Rightarrow> jsnum" where
  "example_fl r = Num r"

text \<open>Example records.\<close>

definition example_node :: "string \<Rightarrow> jsnum option \<Rightarrow> timeValue \<Rightarrow> PNode" where
  "example_node k h t =
     \<lparr>pubkey = k, status = Online, healthScore = h, tier = None, storageUsed = Num 0,
      storageTotal = Num 0, storageUtilization = None, ramUsed = None, ramTotal = None,
      version = None, region = None, ip = None, lastSeen = t\<rparr>"

definition example_state :: "SortField \<Rightarrow> SortDirection \<Rightarrow> ViewState" where
  "example_state f d =
     \<lparr>search = [], statusFilter = All, tierFilter = All, sortField = f, sortDirection = d\<rparr>"

definition example_marker :: "status \<Rightarrow> timeValue \<Rightarrow> MapNode" where
  "example_marker s t =
     \<lparr>MapNode.pubkey = ''abc'', lat = Num 0, lng = Num 0, country = [],
      MapNode.region = [], MapNode.status = s, MapNode.healthScore = Num 90,
      uptime24h = Num 99, MapNode.storageUtilization = Num 50, MapNode.version = [],
      MapNode.lastSeen = t\<rparr>"

definition example_nodes :: "nat \<Rightarrow> PNode list" where
  "example_nodes n = map (\<lambda>i. example_node (replicate i CHR ''k'') None None) [0..<n]"

definition example_heap :: "PNode list \<Rightarrow> heap" where
  "example_heap xs = \<lparr>arrays = (\<lambda>r. if r = 0 then xs else []), next_ref = 1\<rparr>"

section \<open>Lemmas about the sort\<close>

lemma mset_insort_js: "mset (insort_js c x ys) = add_mset x (mset ys)"
  by (induction ys) auto

lemma mset_insertion_sort: "mset (insertion_sort c xs) = mset xs"
  by (induction xs) (auto simp: insertion_sort_def mset_insort_js)

lemma run_asc_append: "run_asc c p xs = (run, rest) \<Longrightarrow> run @ rest = xs"
  by (induction xs arbitrary: p run rest) (auto split: if_splits prod.splits)

lemma run_desc_append: "run_desc c p xs = (run, rest) \<Longrightarrow> run @ rest = xs"
  by (induction xs arbitrary: p run rest) (auto split: if_splits prod.splits)

lemma mset_countAndMakeRun:
  "countAndMakeRun c xs = (run, rest) \<Longrightarrow> mset run + mset rest = mset xs"
proof (induction c xs rule: countAndMakeRun.induct)
  case (3 c elementHigh elementLow xs)
  show ?case
  proof (cases "jnegative (SortCompare c elementLow elementHigh)")
    case True
    obtain r rest' where r: "run_desc c elementLow xs = (r, rest')" by (cases "run_desc c elementLow xs")
    then have "r @ rest' = xs" by (rule run_desc_append)
    then have "mset r + mset rest' = mset xs" by (metis mset_append)
    then show ?thesis using "3.prems" True r by auto
  next
    case False
    obtain r rest' where r: "run_asc c elementLow xs = (r, rest')" by (cases "run_asc c elementLow xs")
    then have "r @ rest' = xs" by (rule run_asc_append)
    then have "mset r + mset rest' = mset xs" by (metis mset_append)
    then show ?thesis using "3.prems" False r by auto
  qed
qed auto

lemma mset_binaryInsert: "mset (binaryInsert c pivot ys) = add_mset pivot (mset ys)"
proof -
  have "mset (take k ys @ pivot # drop k ys) = add_mset pivot (mset ys)" for k
    by (metis append_take_drop_id mset.simps(2) mset_append union_mset_add_mset_right)
  then show ?thesis by (simp add: binaryInsert_def Let_def)
qed

lemma mset_binaryInsertionSort: "mset (binaryInsertionSort c run rest) = mset run + mset rest"
  unfolding binaryInsertionSort_def
  by (induction rest arbitrary: run) (simp_all add: mset_binaryInsert)

lemma mset_arrayTimSort: "mset (arrayTimSort c xs) = mset xs"
proof -
  obtain run rest where r: "countAndMakeRun c xs = (run, rest)" by (cases "countAndMakeRun c xs")
  then show ?thesis
    using mset_countAndMakeRun [OF r] by (simp add: arrayTimSort_def mset_binaryInsertionSort)
qed

lemma mset_sort_js: "mset (sort_js c xs) = mset xs"
  by (simp add: sort_js_def mset_insertion_sort mset_arrayTimSort)

lemma sort_js_consistent: "consistent_on c (set xs) \<Longrightarrow> sort_js c xs = insertion_sort c xs"
  by (simp add: sort_js_def)

lemma set_sort_js: "set (sort_js c xs) = set xs"
  using mset_sort_js [of c xs] by (metis set_mset_mset)

lemma length_sort_js: "length (sort_js c xs) = length xs"
  using mset_sort_js [of c xs] by (metis size_mset)

lemma insertion_sort_Cons: "insertion_sort c (x # xs) = insort_js c x (insertion_sort c xs)"
  by (simp add: insertion_sort_def)

lemma set_insertion_sort: "set (insertion_sort c xs) = set xs"
  using mset_insertion_sort [of c xs] by (metis set_mset_mset)

lemma filter_insort_js_other: "\<not> P a \<Longrightarrow> filter P (insort_js c a ys) = filter P ys"
  by (induction ys) auto

lemma filter_insort_js_pair:
  assumes "a = x \<or> a = y"
    and "\<not> jpos (SortCompare c x y)" and "\<not> jpos (SortCompare c y x)"
  shows "filter (\<lambda>z. z = x \<or> z = y) (insort_js c a ys) = a # filter (\<lambda>z. z = x \<or> z = y) ys"
  using assms by (induction ys) auto

lemma insertion_sort_stable_pair:
  assumes "\<not> jpos (SortCompare c x y)" and "\<not> jpos (SortCompare c y x)"
  shows "filter (\<lambda>z. z = x \<or> z = y) (insertion_sort c xs) = filter (\<lambda>z. z = x \<or> z = y) xs"
proof (induction xs)
  case Nil
  show ?case by (simp add: insertion_sort_def)
next
  case (Cons a xs)
  show ?case
  proof (cases "a = x \<or> a = y")
    case True
    then show ?thesis
      using filter_insort_js_pair [OF True assms, of "insertion_sort c xs"] Cons
      by (simp add: insertion_sort_Cons)
  next
    case False
    then show ?thesis
      using filter_insort_js_other [of "\<lambda>z. z = x \<or> z = y" a c "insertion_sort c xs"] Cons
      by (simp add: insertion_sort_Cons)
  qed
qed

lemma sort_js_stable_pair:
  assumes "consistent_on c (set xs)"
    and "\<not> jpos (SortCompare c x y)" and "\<not> jpos (SortCompare c y x)"
  shows "filter (\<lambda>z. z = x \<or> z = y) (sort_js c xs) = filter (\<lambda>z. z = x \<or> z = y) xs"
  using insertion_sort_stable_pair [OF assms(2,3)] sort_js_consistent [OF assms(1)] by simp

lemma jnegative_not_jpos: "jnegative v \<Longrightarrow> \<not> jpos v"
  by (cases v) auto

lemma consistent_on_subset: "consistent_on c S \<Longrightarrow> T \<subseteq> S \<Longrightarrow> consistent_on c T"
  unfolding consistent_on_def by blast

lemma sorted_insort_js:
  assumes "consistent_on c (insert x (set ys))" and "sorted_wrt (le_js c) ys"
  shows "sorted_wrt (le_js c) (insort_js c x ys)"
  using assms
proof (induction ys)
  case Nil
  show ?case by simp
next
  case (Cons y ys)
  have cons: "consistent_on c (insert x (set ys))"
    using Cons.prems(1) by (rule consistent_on_subset) auto
  have anti: "\<And>a b. a \<in> insert x (set (y # ys)) \<Longrightarrow> b \<in> insert x (set (y # ys)) \<Longrightarrow>
      jpos (SortCompare c a b) = jnegative (SortCompare c b a)"
    using Cons.prems(1) unfolding consistent_on_def by blast
  have trans: "\<And>a b d. a \<in> insert x (set (y # ys)) \<Longrightarrow> b \<in> insert x (set (y # ys)) \<Longrightarrow>
      d \<in> insert x (set (y # ys)) \<Longrightarrow> le_js c a b \<Longrightarrow> le_js c b d \<Longrightarrow> le_js c a d"
    using Cons.prems(1) unfolding consistent_on_def by blast
  show ?case
  proof (cases "jpos (SortCompare c x y)")
    case True
    then have "jnegative (SortCompare c y x)" using anti [of x y] by simp
    then have yx: "le_js c y x" by (simp add: le_js_def jnegative_not_jpos)
    have "sorted_wrt (le_js c) (insort_js c x ys)"
      using Cons.IH [OF cons] Cons.prems(2) by simp
    moreover have "\<forall>z\<in>set (insort_js c x ys). le_js c y z"
    proof
      fix z assume "z \<in> set (insort_js c x ys)"
      then have "z \<in># mset (insort_js c x ys)" by simp
      then have "z = x \<or> z \<in> set ys" by (simp add: mset_insort_js)
      then show "le_js c y z" using yx Cons.prems(2) by auto
    qed
    ultimately show ?thesis using True by simp
  next
    case False
    then have xy: "le_js c x y" by (simp add: le_js_def)
    have "\<forall>z\<in>set ys. le_js c x z"
    proof
      fix z assume z: "z \<in> set ys"
      then have "le_js c y z" using Cons.prems(2) by simp
      then show "le_js c x z" using trans [of x y z] xy z by simp
    qed
    then show ?thesis using False xy Cons.prems(2) by simp
  qed
qed

lemma sorted_insertion_sort:
  assumes "consistent_on c (set xs)"
  shows "sorted_wrt (le_js c) (insertion_sort c xs)"
  using assms
proof (induction xs)
  case Nil
  show ?case by (simp add: insertion_sort_def)
next
  case (Cons x xs)
  have "consistent_on c (set xs)"
    using Cons.prems by (rule consistent_on_subset) auto
  then have "sorted_wrt (le_js c) (insertion_sort c xs)" by (rule Cons.IH)
  moreover have "consistent_on c (insert x (set (insertion_sort c xs)))"
    using Cons.prems by (simp add: set_insertion_sort)
  ultimately show ?case by (simp add: insertion_sort_Cons sorted_insort_js)
qed

lemma sorted_sort_js:
  assumes "consistent_on c (set xs)"
  shows "sorted_wrt (le_js c) (sort_js c xs)"
  using sorted_insertion_sort [OF assms] sort_js_consistent [OF assms] by simp

lemma sorted_wrt_same_classes:
  fixes le :: "'a \<Rightarrow> 'a \<Rightarrow> bool" and cl :: "'a \<Rightarrow> 'b"
  assumes refl: "\<And>x. x \<in> S \<Longrightarrow> le x x"
    and trans: "\<And>x y z. x \<in> S \<Longrightarrow> y \<in> S \<Longrightarrow> z \<in> S \<Longrightarrow> le x y \<Longrightarrow> le y z \<Longrightarrow> le x z"
    and cl: "\<And>x y. x \<in> S \<Longrightarrow> y \<in> S \<Longrightarrow> (cl x = cl y) = (le x y \<and> le y x)"
  shows "set A \<subseteq> S \<Longrightarrow> set B \<subseteq> S \<Longrightarrow> sorted_wrt le A \<Longrightarrow> sorted_wrt le B
    \<Longrightarrow> mset (map cl A) = mset (map cl B) \<Longrightarrow> list_all2 (\<lambda>a b. le a b \<and> le b a) A B"
proof (induction A arbitrary: B)
  case Nil
  then show ?case by simp
next
  case (Cons a A)
  from Cons.prems(5) obtain b B' where B: "B = b # B'"
    by (cases B) auto
  have aS: "a \<in> S" and bS: "b \<in> S" using Cons.prems(1,2) B by auto
  have head: "le p q" if "p \<in> S" "q \<in> S" "sorted_wrt le (p # P)" "set P \<subseteq> S"
    "cl q \<in> cl ` set (p # P)" for p q P
  proof -
    from that(5) obtain r where r: "r \<in> set (p # P)" "cl r = cl q"
      by (metis imageE)
    then have rS: "r \<in> S" using that(1,4) by auto
    have "le p r" using r(1) that(3) refl [OF that(1)] by auto
    moreover have "le r q" using cl [OF rS that(2)] r(2) by simp
    ultimately show ?thesis using trans [OF that(1) rS that(2)] by blast
  qed
  have setmap: "cl ` set (a # A) = cl ` set (b # B')"
    using Cons.prems(5) B by (metis set_map set_mset_mset)
  have "le a b"
    using head [of a b A] aS bS Cons.prems(1,3) setmap by auto
  moreover have "le b a"
    using head [of b a B'] aS bS Cons.prems(2,4) B setmap by auto
  ultimately have tie: "le a b \<and> le b a" by simp
  then have "cl a = cl b" using cl [OF aS bS] by simp
  then have "mset (map cl A) = mset (map cl B')" using Cons.prems(5) B by simp
  then have "list_all2 (\<lambda>a b. le a b \<and> le b a) A B'"
    using Cons.IH [of B'] Cons.prems(1,2,3,4) B by simp
  then show ?case using tie B by simp
qed

lemma consistent_on_refl: "consistent_on c S \<Longrightarrow> x \<in> S \<Longrightarrow> le_js c x x"
  unfolding consistent_on_def le_js_def using jnegative_not_jpos by blast

lemma consistent_on_trans:
  "consistent_on c S \<Longrightarrow> x \<in> S \<Longrightarrow> y \<in> S \<Longrightarrow> z \<in> S \<Longrightarrow> le_js c x y \<Longrightarrow> le_js c y z \<Longrightarrow> le_js c x z"
  unfolding consistent_on_def by blast

lemma sorted_same_mset_ties:
  assumes c: "consistent_on c S" and "set A \<subseteq> S" and "sorted_wrt (le_js c) A"
    and "sorted_wrt (le_js c) B" and "mset A = mset B"
  shows "list_all2 (\<lambda>a b. le_js c a b \<and> le_js c b a) A B"
proof -
  define cl where "cl x = {y \<in> S. le_js c x y \<and> le_js c y x}" for x
  have BS: "set B \<subseteq> S" using assms(2,5) by (metis set_mset_mset)
  have clp: "(cl x = cl y) = (le_js c x y \<and> le_js c y x)" if "x \<in> S" "y \<in> S" for x y
  proof
    assume "cl x = cl y"
    moreover have "y \<in> cl y" using that consistent_on_refl [OF c] by (simp add: cl_def)
    ultimately have "y \<in> cl x" by simp
    then show "le_js c x y \<and> le_js c y x" by (simp add: cl_def)
  next
    assume t: "le_js c x y \<and> le_js c y x"
    show "cl x = cl y"
      unfolding cl_def using t that consistent_on_trans [OF c] by blast
  qed
  have "mset (map cl A) = mset (map cl B)" using assms(5) by (metis mset_map)
  then show ?thesis
    using sorted_wrt_same_classes [of S "le_js c" cl A B]
      consistent_on_refl [OF c] consistent_on_trans [OF c] clp assms(2,3,4) BS
    by blast
qed

lemma jpos_jneg: "jpos (jneg v) = jnegative v"
  by (cases v) auto

lemma jnegative_jneg: "jnegative (jneg v) = jpos v"
  by (cases v) auto

lemma SortCompare_jneg: "SortCompare (\<lambda>a b. jneg (c a b)) x y = jneg (SortCompare c x y)"
  by (cases "c x y") (auto simp: SortCompare_def)

lemma SortCompare_zero_iff:
  "(SortCompare c x y = Num 0) = (\<not> jpos (SortCompare c x y) \<and> \<not> jnegative (SortCompare c x y))"
  by (cases "c x y") (auto simp: SortCompare_def)

lemma le_js_jneg:
  assumes "consistent_on c S" "x \<in> S" "y \<in> S"
  shows "le_js (\<lambda>a b. jneg (c a b)) x y = le_js c y x"
  using assms unfolding le_js_def consistent_on_def
  by (simp add: SortCompare_jneg jpos_jneg)

lemma consistent_on_jneg:
  assumes "consistent_on c S"
  shows "consistent_on (\<lambda>a b. jneg (c a b)) S"
proof -
  have anti: "\<forall>x\<in>S. \<forall>y\<in>S. jpos (SortCompare c x y) = jnegative (SortCompare c y x)"
    using assms unfolding consistent_on_def by blast
  have "\<forall>x\<in>S. \<forall>y\<in>S. jpos (SortCompare (\<lambda>a b. jneg (c a b)) x y)
      = jnegative (SortCompare (\<lambda>a b. jneg (c a b)) y x)"
    using anti by (simp add: SortCompare_jneg jpos_jneg jnegative_jneg)
  moreover have "\<forall>x\<in>S. \<forall>y\<in>S. \<forall>z\<in>S. le_js (\<lambda>a b. jneg (c a b)) x y \<and> le_js (\<lambda>a b. jneg (c a b)) y z
      \<longrightarrow> le_js (\<lambda>a b. jneg (c a b)) x z"
    using consistent_on_trans [OF assms] le_js_jneg [OF assms] by blast
  ultimately show ?thesis unfolding consistent_on_def by blast
qed

lemma compareFn_Desc: "compareFn fl lc rd f Desc = (\<lambda>a b. jneg (compareFn fl lc rd f Asc a b))"
  by (simp add: compareFn_def fun_eq_iff)

lemma compareFn_Asc: "compareFn fl lc rd f Asc = comparison fl lc rd f"
  by (simp add: compareFn_def fun_eq_iff)

lemma tie_iff_zero:
  assumes "consistent_on c S" "x \<in> S" "y \<in> S"
  shows "(le_js c x y \<and> le_js c y x) = (SortCompare c x y = Num 0)"
  using assms unfolding consistent_on_def le_js_def SortCompare_zero_iff [of c x y] by blast

lemma tied_consistent:
  assumes "consistent_on c S" "x \<in> S" "y \<in> S"
  shows "tied c x y = (SortCompare c x y = Num 0)"
  using tie_iff_zero [OF assms] tie_iff_zero [OF assms(1) assms(3) assms(2)]
  unfolding tied_def by blast

lemma sort_js_neg_rev_ties:
  assumes c: "consistent_on c (set xs)"
  shows "list_all2 (\<lambda>a b. SortCompare c a b = Num 0)
           (sort_js (\<lambda>a b. jneg (c a b)) xs) (rev (sort_js c xs))"
proof -
  let ?d = "\<lambda>a b. jneg (c a b)"
  let ?A = "sort_js ?d xs" and ?B = "rev (sort_js c xs)"
  have d: "consistent_on ?d (set xs)" using c by (rule consistent_on_jneg)
  have A: "sorted_wrt (le_js ?d) ?A" using d by (rule sorted_sort_js)
  have "sorted_wrt (le_js c) (sort_js c xs)" using c by (rule sorted_sort_js)
  then have "sorted_wrt (\<lambda>x y. le_js c y x) ?B" by (simp add: sorted_wrt_rev)
  then have B: "sorted_wrt (le_js ?d) ?B"
    by (rule sorted_wrt_mono_rel [rotated]) (simp add: le_js_jneg [OF c] set_sort_js)
  have m: "mset ?A = mset ?B" by (simp add: mset_sort_js)
  have "list_all2 (\<lambda>a b. le_js ?d a b \<and> le_js ?d b a) ?A ?B"
    using sorted_same_mset_ties [OF d _ A B m] by (simp add: set_sort_js)
  then show ?thesis
  proof (rule list.rel_mono_strong)
    fix a b assume "a \<in> set ?A" "b \<in> set ?B" and t: "le_js ?d a b \<and> le_js ?d b a"
    then have ab: "a \<in> set xs" "b \<in> set xs" by (simp_all add: set_sort_js)
    from t have "le_js c b a \<and> le_js c a b" using le_js_jneg [OF c] ab by simp
    then show "SortCompare c a b = Num 0" using tie_iff_zero [OF c ab] by simp
  qed
qed

section \<open>Lemmas about the comparator\<close>

lemma comparison_shape:
  "(\<exists>k. comparison fl lc rd f = (\<lambda>a b. jsub (k a) (k b)))
   \<or> (\<exists>s. comparison fl lc rd f = (\<lambda>a b. localeCompare lc (s a) (s b)))"
  by (cases f) (auto simp: fun_eq_iff lastSeen_try_def)

lemma jsub_anti:
  "u \<noteq> NaN \<Longrightarrow> v \<noteq> NaN \<Longrightarrow>
   jpos (case jsub u v of NaN \<Rightarrow> Num 0 | w \<Rightarrow> w) = jnegative (case jsub v u of NaN \<Rightarrow> Num 0 | w \<Rightarrow> w)"
  by (cases u; cases v) auto

lemma jsub_trans:
  "u \<noteq> NaN \<Longrightarrow> v \<noteq> NaN \<Longrightarrow> w \<noteq> NaN \<Longrightarrow>
   \<not> jpos (case jsub u v of NaN \<Rightarrow> Num 0 | w \<Rightarrow> w) \<Longrightarrow>
   \<not> jpos (case jsub v w of NaN \<Rightarrow> Num 0 | w \<Rightarrow> w) \<Longrightarrow>
   \<not> jpos (case jsub u w of NaN \<Rightarrow> Num 0 | w \<Rightarrow> w)"
  by (cases u; cases v; cases w) auto

lemma consistent_on_keys:
  assumes "\<forall>x\<in>S. k x \<noteq> NaN"
  shows "consistent_on (\<lambda>a b. jsub (k a) (k b)) S"
  unfolding consistent_on_def le_js_def SortCompare_def
  using assms jsub_anti jsub_trans by blast

lemma consistent_on_strings:
  assumes "consistent_lc lc"
  shows "consistent_on (\<lambda>a b. localeCompare lc (s a) (s b)) S"
proof -
  let ?c = "\<lambda>a b. localeCompare lc (s a) (s b)"
  have p: "jpos (SortCompare ?c x y) = (0 < lc (s x) (s y))" for x y
    by (simp add: SortCompare_def localeCompare_def)
  have n: "jnegative (SortCompare ?c x y) = (lc (s x) (s y) < 0)" for x y
    by (simp add: SortCompare_def localeCompare_def)
  have l: "le_js ?c x y = (lc (s x) (s y) \<le> 0)" for x y
    by (simp add: le_js_def p not_less)
  have a: "(0 < lc x y) = (lc y x < 0)" for x y
    using assms unfolding consistent_lc_def by blast
  have t: "lc x y \<le> 0 \<Longrightarrow> lc y z \<le> 0 \<Longrightarrow> lc x z \<le> 0" for x y z
    using assms unfolding consistent_lc_def by blast
  show ?thesis
    unfolding consistent_on_def l p n using a t by blast
qed

lemma consistent_on_small: "consistent_on (\<lambda>a b. jsub (k a) (k b)) {x}"
  unfolding consistent_on_def le_js_def SortCompare_def
  by (cases "k x") auto

lemma no_ties_other:
  assumes "no_ties c xs" and "x \<in> set xs" and "2 \<le> length xs"
  shows "\<exists>y\<in>set xs. SortCompare c x y \<noteq> Num 0"
proof -
  let ?R = "\<lambda>x y. SortCompare c x y \<noteq> Num 0 \<and> SortCompare c y x \<noteq> Num 0"
  from assms(2) obtain i where i: "i < length xs" "xs ! i = x" by (auto simp: in_set_conv_nth)
  from assms(3) i(1) obtain j where j: "j < length xs" "j \<noteq> i"
    by (metis One_nat_def Suc_1 Suc_le_lessD less_nat_zero_code not_less_eq nat_neq_iff)
  have "?R (xs ! i) (xs ! j) \<or> ?R (xs ! j) (xs ! i)"
    using assms(1) i(1) j unfolding no_ties_def sorted_wrt_iff_nth_less
    by (metis nat_neq_iff)
  then show ?thesis using i(2) j(1) by (metis nth_mem)
qed

lemma no_ties_eq:
  assumes "no_ties c xs" and "a \<in> set xs" and "b \<in> set xs" and "SortCompare c a b = Num 0"
  shows "a = b"
proof -
  from assms(2,3) obtain i j where ij: "i < length xs" "xs ! i = a" "j < length xs" "xs ! j = b"
    by (auto simp: in_set_conv_nth)
  have "i = j"
  proof (rule ccontr)
    assume "i \<noteq> j"
    then have "i < j \<or> j < i" by auto
    then show False
      using assms(1,4) ij unfolding no_ties_def sorted_wrt_iff_nth_less by blast
  qed
  then show ?thesis using ij by simp
qed

lemma no_ties_consistent:
  assumes lc: "consistent_lc lc" and nt: "no_ties (comparison fl lc rd f) xs"
  shows "consistent_on (comparison fl lc rd f) (set xs)"
proof -
  consider (num) k where "comparison fl lc rd f = (\<lambda>a b. jsub (k a) (k b))"
    | (str) s where "comparison fl lc rd f = (\<lambda>a b. localeCompare lc (s a) (s b))"
    using comparison_shape by blast
  then show ?thesis
  proof cases
    case str
    then show ?thesis using consistent_on_strings [OF lc] by simp
  next
    case num
    show ?thesis
    proof (cases "2 \<le> length xs")
      case True
      have "\<forall>x\<in>set xs. k x \<noteq> NaN"
      proof
        fix x assume x: "x \<in> set xs"
        from no_ties_other [OF nt x True] obtain y where "SortCompare (comparison fl lc rd f) x y \<noteq> Num 0"
          by blast
        then show "k x \<noteq> NaN" unfolding num SortCompare_def by auto
      qed
      then show ?thesis unfolding num by (rule consistent_on_keys)
    next
      case False
      then have "xs = [] \<or> (\<exists>x. xs = [x])"
        by (cases xs; cases "tl xs") auto
      then show ?thesis
        unfolding num using consistent_on_small [of k] by (auto simp: consistent_on_def)
    qed
  qed
qed

lemma consistent_ordinal_lc: "consistent_lc ordinal_lc"
  unfolding consistent_lc_def ordinal_lc_def by (auto split: if_splits)

lemma or_zero_not_NaN: "or_zero v \<noteq> NaN"
  by (cases v) (auto simp: or_zero_def)

lemma statusOrder_not_NaN: "statusOrder s \<noteq> NaN"
  by (cases s) (simp_all add: statusOrder_def)

lemma tierOrder_not_NaN: "tierOrder t \<noteq> NaN"
  by (auto simp: tierOrder_def split: option.splits tier.splits)

lemma getTime_not_NaN: "t \<noteq> None \<Longrightarrow> getTime t \<noteq> NaN"
  by (cases t) (simp_all add: getTime_def)

lemma consistent_always:
  assumes "consistent_lc lc"
    and "f \<in> {ByStatus, ByHealthScore, ByTier, ByPubkey, ByVersion, ByRegion}"
  shows "consistent_on (compareFn fl lc rd f Asc) S"
proof -
  have s: "consistent_on (\<lambda>a b. jsub (statusOrder (status a)) (statusOrder (status b))) S"
    by (rule consistent_on_keys) (simp add: statusOrder_not_NaN)
  have h: "consistent_on (\<lambda>a b. jsub (or_zero (healthScore a)) (or_zero (healthScore b))) S"
    by (rule consistent_on_keys) (simp add: or_zero_not_NaN)
  have t: "consistent_on (\<lambda>a b. jsub (tierOrder (tier a)) (tierOrder (tier b))) S"
    by (rule consistent_on_keys) (simp add: tierOrder_not_NaN)
  show ?thesis
    using assms(2) s h t consistent_on_strings [OF assms(1), of pubkey S]
      consistent_on_strings [OF assms(1), of "\<lambda>a. or_empty (version a)" S]
      consistent_on_strings [OF assms(1), of "\<lambda>a. or_empty (region a)" S]
    by (auto simp: compareFn_def [abs_def])
qed

lemma consistent_lastSeen:
  assumes "\<forall>x\<in>S. lastSeen x \<noteq> None"
  shows "consistent_on (compareFn fl lc rd ByLastSeen Asc) S"
proof -
  have "consistent_on (\<lambda>a b. jsub (getTime (lastSeen a)) (getTime (lastSeen b))) S"
    by (rule consistent_on_keys) (simp add: assms getTime_not_NaN)
  then show ?thesis by (simp add: compareFn_def [abs_def] lastSeen_try_def)
qed

lemma consistent_healthScore_desc:
  "consistent_on (compareFn fl lc rd ByHealthScore Desc) S"
proof -
  have "consistent_on (\<lambda>a b. jsub (or_zero (healthScore a)) (or_zero (healthScore b))) S"
    by (rule consistent_on_keys) (simp add: or_zero_not_NaN)
  then have "consistent_on (\<lambda>a b. jneg (jsub (or_zero (healthScore a)) (or_zero (healthScore b)))) S"
    by (rule consistent_on_jneg)
  then show ?thesis by (simp add: compareFn_def [abs_def])
qed

lemma jge_of_not_before:
  "u \<noteq> NaN \<Longrightarrow> v \<noteq> NaN \<Longrightarrow>
   \<not> jpos (case jneg (jsub u v) of NaN \<Rightarrow> Num 0 | w \<Rightarrow> w) \<Longrightarrow> jge u v"
  by (cases u; cases v) auto

lemma healthScore_desc_le:
  "le_js (compareFn fl lc rd ByHealthScore Desc) y x \<Longrightarrow>
   jge (or_zero (healthScore y)) (or_zero (healthScore x))"
  unfolding le_js_def SortCompare_def compareFn_def
  using jge_of_not_before [OF or_zero_not_NaN or_zero_not_NaN] by simp

lemma jge_refl: "u \<noteq> NaN \<Longrightarrow> jge u u"
  by (cases u) auto

lemma consistent_on_direction:
  assumes "consistent_on (compareFn fl lc rd f Asc) S"
  shows "consistent_on (compareFn fl lc rd f d) S"
proof (cases d)
  case Asc
  then show ?thesis using assms by simp
next
  case Desc
  then show ?thesis using consistent_on_jneg [OF assms] by (simp add: compareFn_Desc)
qed

lemma lastSeen_unparsable:
  assumes "lastSeen a = None \<or> lastSeen b = None"
  shows "lastSeen_try a b = Inr NaN
    \<and> compareFn fl lc rd ByLastSeen d a b = NaN
    \<and> SortCompare (compareFn fl lc rd ByLastSeen d) a b = Num 0
    \<and> tied (compareFn fl lc rd ByLastSeen d) a b"
proof -
  have t: "lastSeen_try a b = Inr NaN" and t': "lastSeen_try b a = Inr NaN"
    using assms by (auto simp: lastSeen_try_def getTime_def split: option.splits)
  then have "compareFn fl lc rd ByLastSeen d a b = NaN" "compareFn fl lc rd ByLastSeen d b a = NaN"
    by (simp_all add: compareFn_def)
  then show ?thesis using t by (simp add: tied_def SortCompare_def)
qed

section \<open>Lemmas about deduplication\<close>

lemma dedupe_from_subseq: "subseq (dedupe_from seen xs) xs"
  by (induction xs arbitrary: seen) auto

lemma dedupe_from_keys: "pubkey ` set (dedupe_from seen xs) = pubkey ` set xs - seen"
  by (induction xs arbitrary: seen) auto

lemma dedupe_from_distinct: "distinct (map pubkey (dedupe_from seen xs))"
proof (induction xs arbitrary: seen)
  case Nil
  show ?case by simp
next
  case (Cons x xs)
  have "pubkey x \<notin> pubkey ` set (dedupe_from (insert (pubkey x) seen) xs)"
    by (simp add: dedupe_from_keys)
  with Cons show ?case by simp
qed

lemma dedupe_from_first:
  "y \<in> set (dedupe_from seen xs) \<Longrightarrow> find (\<lambda>z. pubkey z = pubkey y) xs = Some y"
proof (induction xs arbitrary: seen)
  case Nil
  then show ?case by simp
next
  case (Cons x xs)
  show ?case
  proof (cases "pubkey x \<in> seen")
    case True
    with Cons.prems have y: "y \<in> set (dedupe_from seen xs)" by simp
    then have "pubkey y \<in> pubkey ` set xs - seen" using dedupe_from_keys by blast
    with True have "pubkey x \<noteq> pubkey y" by auto
    with Cons.IH [OF y] show ?thesis by simp
  next
    case False
    with Cons.prems have "y = x \<or> y \<in> set (dedupe_from (insert (pubkey x) seen) xs)" by auto
    then show ?thesis
    proof
      assume "y = x" then show ?thesis by simp
    next
      assume y: "y \<in> set (dedupe_from (insert (pubkey x) seen) xs)"
      then have "pubkey y \<in> pubkey ` set xs - insert (pubkey x) seen"
        using dedupe_from_keys by blast
      then have "pubkey x \<noteq> pubkey y" by auto
      with Cons.IH [OF y] show ?thesis by simp
    qed
  qed
qed

lemma dedupe_from_id:
  "distinct (map pubkey xs) \<Longrightarrow> pubkey ` set xs \<inter> seen = {} \<Longrightarrow> dedupe_from seen xs = xs"
  by (induction xs arbitrary: seen) auto

lemma dedupe_id: "distinct (map pubkey xs) \<Longrightarrow> dedupe xs = xs"
  by (simp add: dedupe_def dedupe_from_id)

lemma distinct_keys_sort_js:
  "distinct (map pubkey xs) \<Longrightarrow> distinct (map pubkey (sort_js c xs))"
proof -
  assume d: "distinct (map pubkey xs)"
  have "mset (map pubkey (sort_js c xs)) = mset (map pubkey xs)"
    by (simp add: mset_sort_js)
  then show ?thesis using d by (metis mset_eq_imp_distinct_iff)
qed

lemma find_sorted_first:
  "sorted_wrt R S \<Longrightarrow> find P S = Some y \<Longrightarrow> x \<in> set S \<Longrightarrow> P x \<Longrightarrow> x = y \<or> R y x"
  by (induction S) (auto split: if_splits)

lemma dedupe_sorted_health:
  assumes y: "y \<in> set (dedupe (sort_js (compareFn fl lc rd ByHealthScore Desc) xs))"
    and x: "x \<in> set xs" and k: "pubkey x = pubkey y"
  shows "jge (or_zero (healthScore y)) (or_zero (healthScore x))"
proof -
  let ?c = "compareFn fl lc rd ByHealthScore Desc"
  have s: "sorted_wrt (le_js ?c) (sort_js ?c xs)"
    by (rule sorted_sort_js) (rule consistent_healthScore_desc)
  have f: "find (\<lambda>z. pubkey z = pubkey y) (sort_js ?c xs) = Some y"
    using y unfolding dedupe_def by (rule dedupe_from_first)
  have "x \<in> set (sort_js ?c xs)" using x by (simp add: set_sort_js)
  then have "x = y \<or> le_js ?c y x"
    using find_sorted_first [OF s f] k by simp
  then show ?thesis
    using healthScore_desc_le jge_refl [OF or_zero_not_NaN] by auto
qed

lemma filteredAndSorted_unfiltered:
  assumes "distinct (map pubkey pnodes)"
  shows "filteredAndSorted fl lc pnodes (example_state f d)
    = sort_js (compareFn fl lc (nodeRamData pnodes) f d) pnodes"
  using assms
  by (simp add: filteredAndSorted_def example_state_def filterSearch_def filterStatus_def
      filterTier_def trim_def dedupe_id distinct_keys_sort_js)

lemma example_nodes_distinct: "distinct (map pubkey (example_nodes n))"
proof -
  have "map pubkey (example_nodes n) = map (\<lambda>i. replicate i CHR ''k'') [0..<n]"
    by (simp add: example_nodes_def example_node_def comp_def)
  moreover have "inj_on (\<lambda>i. replicate i CHR ''k'') (set [0..<n])"
    by (rule inj_onI) (metis length_replicate)
  ultimately show ?thesis by (simp add: distinct_map)
qed

section \<open>Lemmas about pagination\<close>

lemma slice_nonneg:
  assumes "0 \<le> start" and "start \<le> stop"
  shows "slice xs start stop = take (nat (stop - start)) (drop (nat start) xs)"
proof (cases "stop \<le> int (length xs)")
  case True
  then have "min stop (int (length xs)) = stop" "min start (int (length xs)) = start"
    using assms by simp_all
  then show ?thesis using assms by (simp add: slice_def Let_def)
next
  case False
  then have m: "min stop (int (length xs)) = int (length xs)" by simp
  show ?thesis
  proof (cases "start \<le> int (length xs)")
    case True
    then have k: "min start (int (length xs)) = start" by simp
    have "length (drop (nat start) xs) \<le> nat (int (length xs) - start)"
      using assms(1) True by simp
    moreover have "length (drop (nat start) xs) \<le> nat (stop - start)"
      using assms(1) False by simp
    ultimately show ?thesis
      using assms by (simp add: slice_def Let_def m k del: length_drop)
  next
    case False
    then have "min start (int (length xs)) = int (length xs)" by simp
    then show ?thesis using assms False m by (simp add: slice_def Let_def)
  qed
qed

lemma length_slice:
  assumes "0 \<le> n"
  shows "length (slice xs start (start + n)) \<le> nat n"
proof -
  define len where "len = int (length xs)"
  define k where "k = (if start < 0 then max (len + start) 0 else min start len)"
  define final where
    "final = (if start + n < 0 then max (len + (start + n)) 0 else min (start + n) len)"
  have "0 \<le> len" by (simp add: len_def)
  then have "final - k \<le> n"
    unfolding k_def final_def using assms by (simp add: min_def max_def)
  then have "nat (final - k) \<le> nat n" by linarith
  moreover have "length (slice xs start (start + n)) \<le> nat (final - k)"
    by (simp add: slice_def Let_def k_def final_def len_def)
  ultimately show ?thesis by linarith
qed

lemma paginatedNodes_pos:
  "1 \<le> p \<Longrightarrow> paginatedNodes fs p = take itemsPerPage (drop (nat (p - 1) * itemsPerPage) fs)"
  by (simp add: paginatedNodes_def Let_def slice_nonneg nat_mult_distrib)

lemma totalPages_div: "totalPages fs = int ((length fs + 19) div 20)"
proof -
  define q where "q = (length fs + 19) div 20"
  have "q * 20 \<le> length fs + 19" by (simp add: q_def)
  then have a: "real q * 20 \<le> real (length fs) + 19"
    using of_nat_mono [of "q * 20" "length fs + 19", where 'a = real] by simp
  have "length fs + 19 < q * 20 + 20"
    using dividend_less_div_times [of 20 "length fs + 19"] by (simp add: q_def)
  then have "length fs \<le> q * 20" by simp
  then have b: "real (length fs) \<le> real q * 20"
    using of_nat_mono [of "length fs" "q * 20", where 'a = real] by simp
  have "\<lceil>real (length fs) / 20\<rceil> = int q"
  proof (rule ceiling_unique)
    show "real_of_int (int q) - 1 < real (length fs) / 20" using a by simp
    show "real (length fs) / 20 \<le> real_of_int (int q)" using b by simp
  qed
  then show ?thesis by (simp add: totalPages_def itemsPerPage_def q_def)
qed

lemma concat_chunks:
  "concat (map (\<lambda>i. take n (drop (i * n) xs)) [0..<m]) = take (m * n) xs"
proof (induction m)
  case 0
  show ?case by simp
next
  case (Suc m)
  have "take (m * n) xs @ take n (drop (m * n) xs) = take (m * n + n) xs"
    by (simp add: take_add)
  with Suc show ?case by (simp add: add.commute)
qed

lemma pages_concat:
  "concat (map (\<lambda>p. paginatedNodes fs (int p)) [1..<Suc (nat (totalPages fs))]) = fs"
proof -
  let ?m = "nat (totalPages fs)"
  have "map (\<lambda>p. paginatedNodes fs (int p)) [1..<Suc ?m]
      = map (\<lambda>i. take itemsPerPage (drop (i * itemsPerPage) fs)) [0..<?m]"
    unfolding map_Suc_upt [symmetric] One_nat_def
    by (simp add: paginatedNodes_pos)
  then have "concat (map (\<lambda>p. paginatedNodes fs (int p)) [1..<Suc ?m]) = take (?m * itemsPerPage) fs"
    by (simp only: concat_chunks)
  moreover have "length fs \<le> ?m * itemsPerPage"
    by (simp add: totalPages_div itemsPerPage_def)
  ultimately show ?thesis by simp
qed

section \<open>Lemmas about the popup\<close>

text \<open>
  What the three branches pass to \<open>setOffset\<close>, with a popup that has the method.
\<close>

lemma adjustPopupPosition_with_setOffset:
  "adjustPopupPosition (Some m) (w, h) (px, py) popup =
     (None,
      if w - 280 < px \<and> py < 350 then m (- popupWidth popup - 30, - 10) popup
      else if px < 280 \<and> h - 250 < py then m (30, - 10) popup
      else m (0, - 10) popup)"
  by (simp add: adjustPopupPosition_def call_setOffset_def isNearFilters_def isNearLegend_def
      filterArea_def legendArea_def)

section \<open>Deduplication\<close>

text \<open>
  C1.  \<open>dedupe\<close> keeps, for each pubkey, the first record of its input with that pubkey
  and drops the later ones: the pubkeys of the output are distinct, the output is a
  subsequence of the input and not longer, every pubkey of the input is kept, and each
  kept record is the first of the input with its pubkey.  After a sort by health score,
  descending, no record with the pubkey of a kept record has a higher health score than
  the kept one; of two records with the pubkey \<open>abc\<close> the view keeps the one with the
  higher health score.
\<close>

theorem dedupe_keeps_first:
  "distinct (map pubkey (dedupe xs))
   \<and> subseq (dedupe xs) xs
   \<and> length (dedupe xs) \<le> length xs
   \<and> pubkey ` set (dedupe xs) = pubkey ` set xs
   \<and> (\<forall>y\<in>set (dedupe xs). find (\<lambda>z. pubkey z = pubkey y) xs = Some y)
   \<and> (\<forall>y\<in>set (dedupe (sort_js (compareFn fl lc rd ByHealthScore Desc) xs)). \<forall>x\<in>set xs.
         pubkey x = pubkey y \<longrightarrow> jge (or_zero (healthScore y)) (or_zero (healthScore x)))
   \<and> filteredAndSorted fl lc
        [example_node ''abc'' (Some (Num 50)) None, example_node ''abc'' (Some (Num 90)) None]
        (example_state ByHealthScore Desc)
      = [example_node ''abc'' (Some (Num 90)) None]"
proof -
  have "subseq (dedupe xs) xs" unfolding dedupe_def by (rule dedupe_from_subseq)
  moreover from this have "length (dedupe xs) \<le> length xs" by (rule list_emb_length)
  moreover have "distinct (map pubkey (dedupe xs))"
    unfolding dedupe_def by (rule dedupe_from_distinct)
  moreover have "pubkey ` set (dedupe xs) = pubkey ` set xs"
    unfolding dedupe_def by (simp add: dedupe_from_keys)
  moreover have "\<forall>y\<in>set (dedupe xs). find (\<lambda>z. pubkey z = pubkey y) xs = Some y"
    unfolding dedupe_def using dedupe_from_first by blast
  moreover have "\<forall>y\<in>set (dedupe (sort_js (compareFn fl lc rd ByHealthScore Desc) xs)). \<forall>x\<in>set xs.
         pubkey x = pubkey y \<longrightarrow> jge (or_zero (healthScore y)) (or_zero (healthScore x))"
    using dedupe_sorted_health by blast
  moreover have "filteredAndSorted fl lc
        [example_node ''abc'' (Some (Num 50)) None, example_node ''abc'' (Some (Num 90)) None]
        (example_state ByHealthScore Desc)
      = [example_node ''abc'' (Some (Num 90)) None]"
    by (simp add: filteredAndSorted_def example_state_def filterSearch_def filterStatus_def
        filterTier_def trim_def sort_js_consistent [OF consistent_healthScore_desc]
        insertion_sort_def SortCompare_def compareFn_def or_zero_def dedupe_def
        example_node_def)
  ultimately show ?thesis by blast
qed

text \<open>
  Three records, two of them with the pubkey \<open>abc\<close>: the first of the two is kept.
\<close>

theorem dedupe_keeps_first_witness:
  "example_node ''abc'' (Some (Num 90)) None
     \<in> set (dedupe [example_node ''abc'' (Some (Num 90)) None,
                   example_node ''xyz'' (Some (Num 70)) None,
                   example_node ''abc'' (Some (Num 50)) None])
   \<and> find (\<lambda>z. pubkey z = ''abc'')
       [example_node ''abc'' (Some (Num 90)) None, example_node ''xyz'' (Some (Num 70)) None,
        example_node ''abc'' (Some (Num 50)) None]
     = Some (example_node ''abc'' (Some (Num 90)) None)
   \<and> dedupe [example_node ''abc'' (Some (Num 90)) None,
             example_node ''xyz'' (Some (Num 70)) None,
             example_node ''abc'' (Some (Num 50)) None]
     = [example_node ''abc'' (Some (Num 90)) None, example_node ''xyz'' (Some (Num 70)) None]"
proof -
  let ?a = "example_node ''abc'' (Some (Num 90)) None"
  let ?x = "example_node ''xyz'' (Some (Num 70)) None"
  let ?b = "example_node ''abc'' (Some (Num 50)) None"
  have d: "dedupe [?a, ?x, ?b] = [?a, ?x]"
    by (simp add: dedupe_def example_node_def)
  then have m: "?a \<in> set (dedupe [?a, ?x, ?b])" by simp
  have "find (\<lambda>z. pubkey z = pubkey ?a) [?a, ?x, ?b] = Some ?a"
    using dedupe_keeps_first
        [where xs = "[?a, ?x, ?b]" and fl = example_fl and lc = ordinal_lc and rd = Map.empty] m
    by blast
  then have "find (\<lambda>z. pubkey z = ''abc'') [?a, ?x, ?b] = Some ?a"
    by (simp add: example_node_def)
  with d m show ?thesis by simp
qed

section \<open>Pages\<close>

text \<open>
  C2.  A page has at most \<open>itemsPerPage = 20\<close> records, for every page number;
  \<open>totalPages\<close> is the ceiling of the count over 20, which is \<open>0\<close> on the empty
  collection; the pages \<open>1\<close> to \<open>totalPages\<close>, one after the other, are the whole
  collection; and 25 records give two pages, of 20 and of 5 records.  With unique pubkeys
  and no filter, 25 records leave a view of 25 records.
\<close>

theorem pagination:
  "length (paginatedNodes fs p) \<le> itemsPerPage
   \<and> itemsPerPage = 20
   \<and> totalPages fs = \<lceil>real (length fs) / 20\<rceil>
   \<and> totalPages fs = int ((length fs + 19) div 20)
   \<and> totalPages ([] :: 'a list) = 0
   \<and> concat (map (\<lambda>p. paginatedNodes fs (int p)) [1..<Suc (nat (totalPages fs))]) = fs
   \<and> (length fs = 25 \<longrightarrow>
        totalPages fs = 2 \<and> length (paginatedNodes fs 1) = 20 \<and> length (paginatedNodes fs 2) = 5)
   \<and> (distinct (map pubkey pnodes) \<and> length pnodes = 25 \<longrightarrow>
        length (filteredAndSorted fl lc pnodes (example_state f d)) = 25)"
proof -
  have c1: "length (paginatedNodes fs p) \<le> itemsPerPage"
    using length_slice [of "int itemsPerPage" fs "(p - 1) * int itemsPerPage"]
    by (simp add: paginatedNodes_def Let_def)
  have c2: "itemsPerPage = 20" by (simp add: itemsPerPage_def)
  have c3: "totalPages fs = \<lceil>real (length fs) / 20\<rceil>"
    by (simp add: totalPages_def itemsPerPage_def)
  have c4: "totalPages fs = int ((length fs + 19) div 20)" by (rule totalPages_div)
  have c5: "totalPages ([] :: 'a list) = 0"
    by (simp add: totalPages_def)
  have c6: "concat (map (\<lambda>p. paginatedNodes fs (int p)) [1..<Suc (nat (totalPages fs))]) = fs"
    by (rule pages_concat)
  have c7: "length fs = 25 \<longrightarrow>
        totalPages fs = 2 \<and> length (paginatedNodes fs 1) = 20 \<and> length (paginatedNodes fs 2) = 5"
    using paginatedNodes_pos [of 1 fs] paginatedNodes_pos [of 2 fs]
    by (simp add: totalPages_div itemsPerPage_def)
  have c8: "distinct (map pubkey pnodes) \<and> length pnodes = 25 \<longrightarrow>
        length (filteredAndSorted fl lc pnodes (example_state f d)) = 25"
    by (simp add: filteredAndSorted_unfiltered length_sort_js)
  show ?thesis using c1 c2 c3 c4 c5 c6 c7 c8 by blast
qed

text \<open>
  Twenty-five records with unique pubkeys, through the pipeline and the paginator.
\<close>

theorem pagination_witness:
  "length (example_nodes 25) = 25
   \<and> distinct (map pubkey (example_nodes 25))
   \<and> length (filteredAndSorted example_fl ordinal_lc (example_nodes 25) (example_state ByHealthScore Desc)) = 25
   \<and> totalPages (filteredAndSorted example_fl ordinal_lc (example_nodes 25) (example_state ByHealthScore Desc)) = 2
   \<and> length (paginatedNodes
        (filteredAndSorted example_fl ordinal_lc (example_nodes 25) (example_state ByHealthScore Desc)) 1) = 20
   \<and> length (paginatedNodes
        (filteredAndSorted example_fl ordinal_lc (example_nodes 25) (example_state ByHealthScore Desc)) 2) = 5"
proof -
  let ?fs = "filteredAndSorted example_fl ordinal_lc (example_nodes 25) (example_state ByHealthScore Desc)"
  have l: "length (example_nodes 25) = 25" by (simp add: example_nodes_def)
  have d: "distinct (map pubkey (example_nodes 25))" by (rule example_nodes_distinct)
  have "length ?fs = 25"
    using pagination
        [where fs = ?fs and p = 1 and pnodes = "example_nodes 25" and fl = example_fl
           and lc = ordinal_lc and f = ByHealthScore and d = Desc] l d
    by blast
  then show ?thesis
    using pagination
        [where fs = ?fs and p = 1 and pnodes = "example_nodes 25" and fl = example_fl
           and lc = ordinal_lc and f = ByHealthScore and d = Desc] l d
    by blast
qed

section \<open>Stability of the sort\<close>

text \<open>
  C3, as amended.  For every sort field and direction, on a list on which the comparator
  is consistent the sort is stable: when two records compare equal, their occurrences are
  in the same order after the sort as before it.  With a consistent \<open>localeCompare\<close> the
  comparator is consistent on every list for the fields \<open>status\<close>, \<open>healthScore\<close>,
  \<open>tier\<close>, \<open>pubkey\<close>, \<open>version\<close> and \<open>region\<close>, and for \<open>lastSeen\<close> on a list whose
  dates all parse.
\<close>

theorem sort_stable:
  "(consistent_on (compareFn fl lc rd f d) (set xs) \<and> tied (compareFn fl lc rd f d) x y \<longrightarrow>
      occurrences x y (sort_js (compareFn fl lc rd f d) xs) = occurrences x y xs)
   \<and> (consistent_lc lc \<and> f \<in> {ByStatus, ByHealthScore, ByTier, ByPubkey, ByVersion, ByRegion} \<longrightarrow>
        consistent_on (compareFn fl lc rd f d) (set xs))
   \<and> ((\<forall>x\<in>set xs. lastSeen x \<noteq> None) \<longrightarrow>
        consistent_on (compareFn fl lc rd ByLastSeen d) (set xs))"
proof -
  let ?c = "compareFn fl lc rd f d"
  have s: "occurrences x y (sort_js ?c xs) = occurrences x y xs"
    if "consistent_on ?c (set xs)" and "tied ?c x y"
    using that unfolding tied_def occurrences_def
    by (intro sort_js_stable_pair) simp_all
  have a: "consistent_on ?c (set xs)"
    if "consistent_lc lc" and "f \<in> {ByStatus, ByHealthScore, ByTier, ByPubkey, ByVersion, ByRegion}"
    using consistent_always [OF that, of fl rd "set xs"] by (rule consistent_on_direction)
  have l: "consistent_on (compareFn fl lc rd ByLastSeen d) (set xs)"
    if "\<forall>x\<in>set xs. lastSeen x \<noteq> None"
    using consistent_lastSeen [OF that, of fl lc rd] by (rule consistent_on_direction)
  show ?thesis using s a l by blast
qed

text \<open>
  Two records with the health score 50 around one with 90, sorted by health score,
  descending.
\<close>

theorem sort_stable_witness:
  "consistent_on (compareFn example_fl ordinal_lc Map.empty ByHealthScore Desc)
     (set [example_node ''a'' (Some (Num 50)) None, example_node ''c'' (Some (Num 90)) None,
           example_node ''b'' (Some (Num 50)) None])
   \<and> tied (compareFn example_fl ordinal_lc Map.empty ByHealthScore Desc)
     (example_node ''a'' (Some (Num 50)) None) (example_node ''b'' (Some (Num 50)) None)
   \<and> sort_js (compareFn example_fl ordinal_lc Map.empty ByHealthScore Desc)
       [example_node ''a'' (Some (Num 50)) None, example_node ''c'' (Some (Num 90)) None,
        example_node ''b'' (Some (Num 50)) None]
     = [example_node ''c'' (Some (Num 90)) None, example_node ''a'' (Some (Num 50)) None,
        example_node ''b'' (Some (Num 50)) None]
   \<and> occurrences (example_node ''a'' (Some (Num 50)) None) (example_node ''b'' (Some (Num 50)) None)
       (sort_js (compareFn example_fl ordinal_lc Map.empty ByHealthScore Desc)
         [example_node ''a'' (Some (Num 50)) None, example_node ''c'' (Some (Num 90)) None,
          example_node ''b'' (Some (Num 50)) None])
     = [example_node ''a'' (Some (Num 50)) None, example_node ''b'' (Some (Num 50)) None]"
proof -
  let ?c = "compareFn example_fl ordinal_lc Map.empty ByHealthScore Desc"
  let ?a = "example_node ''a'' (Some (Num 50)) None"
  let ?b = "example_node ''b'' (Some (Num 50)) None"
  let ?h = "example_node ''c'' (Some (Num 90)) None"
  have c: "consistent_on ?c (set [?a, ?h, ?b])"
    by (rule consistent_healthScore_desc)
  have t: "tied ?c ?a ?b"
    by (simp add: tied_def SortCompare_def compareFn_def or_zero_def example_node_def)
  have s: "sort_js ?c [?a, ?h, ?b] = [?h, ?a, ?b]"
    by (simp add: sort_js_consistent [OF consistent_healthScore_desc] insertion_sort_def
        SortCompare_def compareFn_def or_zero_def example_node_def)
  have "occurrences ?a ?b (sort_js ?c [?a, ?h, ?b]) = occurrences ?a ?b [?a, ?h, ?b]"
    using sort_stable
        [where fl = example_fl and lc = ordinal_lc and rd = Map.empty and f = ByHealthScore
           and d = Desc and xs = "[?a, ?h, ?b]" and x = ?a and y = ?b] c t
    by blast
  then have "occurrences ?a ?b (sort_js ?c [?a, ?h, ?b]) = [?a, ?b]"
    by (simp add: occurrences_def example_node_def)
  with c t s show ?thesis by simp
qed

text \<open>
  C3 as stated fails on a list with an unparsable \<open>lastSeen\<close>, sorted by \<open>lastSeen\<close>,
  ascending.  On the dates 3, 2, unparsable, 1 the third and the fourth record compare
  equal, and the sort puts the fourth before the third: it reverses the descending run of
  the first two and then places the fourth by binary search against the second and the
  first, never against the third.
\<close>

theorem sort_unstable_unparsable:
  "tied (compareFn example_fl ordinal_lc Map.empty ByLastSeen Asc)
     (example_node ''c'' None None) (example_node ''d'' None (Some 1))
   \<and> sort_js (compareFn example_fl ordinal_lc Map.empty ByLastSeen Asc)
       [example_node ''a'' None (Some 3), example_node ''b'' None (Some 2),
        example_node ''c'' None None, example_node ''d'' None (Some 1)]
     = [example_node ''d'' None (Some 1), example_node ''b'' None (Some 2),
        example_node ''a'' None (Some 3), example_node ''c'' None None]
   \<and> occurrences (example_node ''c'' None None) (example_node ''d'' None (Some 1))
       (sort_js (compareFn example_fl ordinal_lc Map.empty ByLastSeen Asc)
         [example_node ''a'' None (Some 3), example_node ''b'' None (Some 2),
          example_node ''c'' None None, example_node ''d'' None (Some 1)])
     = [example_node ''d'' None (Some 1), example_node ''c'' None None]
   \<and> occurrences (example_node ''c'' None None) (example_node ''d'' None (Some 1))
       [example_node ''a'' None (Some 3), example_node ''b'' None (Some 2),
        example_node ''c'' None None, example_node ''d'' None (Some 1)]
     = [example_node ''c'' None None, example_node ''d'' None (Some 1)]"
proof -
  let ?a = "example_node ''a'' None (Some 3)"
  let ?b = "example_node ''b'' None (Some 2)"
  let ?c = "example_node ''c'' None None"
  let ?d = "example_node ''d'' None (Some 1)"
  let ?asc = "compareFn example_fl ordinal_lc Map.empty ByLastSeen Asc"
  have ac: "le_js ?asc ?a ?c" and cd: "le_js ?asc ?c ?d" and ad: "\<not> le_js ?asc ?a ?d"
    by (simp_all add: le_js_def SortCompare_def compareFn_def lastSeen_try_def getTime_def
        example_node_def)
  have n: "\<not> consistent_on ?asc (set [?a, ?b, ?c, ?d])"
    unfolding consistent_on_def using ac cd ad by auto
  have r: "countAndMakeRun ?asc [?a, ?b, ?c, ?d] = ([?b, ?a], [?c, ?d])"
    by (simp add: SortCompare_def compareFn_def lastSeen_try_def getTime_def example_node_def)
  have i1: "binaryInsert ?asc ?c [?b, ?a] = [?b, ?a, ?c]"
    by (simp add: binaryInsert_def binarySearch.simps SortCompare_def compareFn_def
        lastSeen_try_def getTime_def example_node_def)
  have i2: "binaryInsert ?asc ?d [?b, ?a, ?c] = [?d, ?b, ?a, ?c]"
    by (simp add: binaryInsert_def binarySearch.simps SortCompare_def compareFn_def
        lastSeen_try_def getTime_def example_node_def)
  have s: "sort_js ?asc [?a, ?b, ?c, ?d] = [?d, ?b, ?a, ?c]"
    unfolding sort_js_def using n
    by (simp add: arrayTimSort_def binaryInsertionSort_def r i1 i2 del: countAndMakeRun.simps)
  have t: "tied ?asc ?c ?d"
    by (simp add: tied_def SortCompare_def compareFn_def lastSeen_try_def getTime_def
        example_node_def)
  have o: "occurrences ?c ?d [?d, ?b, ?a, ?c] = [?d, ?c]"
      "occurrences ?c ?d [?a, ?b, ?c, ?d] = [?c, ?d]"
    by (simp_all add: occurrences_def example_node_def)
  show ?thesis unfolding s using t o by simp
qed

section \<open>Descending and ascending order\<close>

text \<open>
  C4, as amended.  With a consistent \<open>localeCompare\<close>: on a list without ties the
  descending sort is the reverse of the ascending sort; on a list on which the comparator
  is consistent the descending sort and the reverse of the ascending sort hold, at
  every position, two records that compare equal; both are permutations of the list.
  The comparator is consistent on every list for the fields \<open>status\<close>,
  \<open>healthScore\<close>, \<open>tier\<close>, \<open>pubkey\<close>, \<open>version\<close> and \<open>region\<close>, and for
  \<open>lastSeen\<close> on a list whose dates all parse.
\<close>

theorem desc_reverse_of_asc:
  assumes lc: "consistent_lc lc"
  shows "(no_ties (compareFn fl lc rd f Asc) xs \<longrightarrow>
            sort_js (compareFn fl lc rd f Desc) xs = rev (sort_js (compareFn fl lc rd f Asc) xs))
    \<and> (consistent_on (compareFn fl lc rd f Asc) (set xs) \<longrightarrow>
          list_all2 (tied (compareFn fl lc rd f Asc))
            (sort_js (compareFn fl lc rd f Desc) xs) (rev (sort_js (compareFn fl lc rd f Asc) xs)))
    \<and> mset (sort_js (compareFn fl lc rd f Desc) xs) = mset xs
    \<and> mset (rev (sort_js (compareFn fl lc rd f Asc) xs)) = mset xs
    \<and> (f \<in> {ByStatus, ByHealthScore, ByTier, ByPubkey, ByVersion, ByRegion} \<longrightarrow>
          consistent_on (compareFn fl lc rd f Asc) (set xs))
    \<and> ((\<forall>x\<in>set xs. lastSeen x \<noteq> None) \<longrightarrow>
          consistent_on (compareFn fl lc rd ByLastSeen Asc) (set xs))"
proof -
  let ?a = "compareFn fl lc rd f Asc" and ?d = "compareFn fl lc rd f Desc"
  have ties: "list_all2 (tied ?a) (sort_js ?d xs) (rev (sort_js ?a xs))"
    if c: "consistent_on ?a (set xs)"
  proof -
    have "list_all2 (\<lambda>a b. SortCompare ?a a b = Num 0) (sort_js ?d xs) (rev (sort_js ?a xs))"
      using sort_js_neg_rev_ties [OF c] by (simp add: compareFn_Desc)
    then show ?thesis
    proof (rule list.rel_mono_strong)
      fix a b assume "a \<in> set (sort_js ?d xs)" "b \<in> set (rev (sort_js ?a xs))"
        and z: "SortCompare ?a a b = Num 0"
      then have "a \<in> set xs" "b \<in> set xs" by (simp_all add: set_sort_js)
      then show "tied ?a a b" using tied_consistent [OF c] z by simp
    qed
  qed
  have rev: "sort_js ?d xs = rev (sort_js ?a xs)" if nt: "no_ties ?a xs"
  proof -
    have c: "consistent_on ?a (set xs)"
      using no_ties_consistent [OF lc, of fl rd f xs] nt by (simp add: compareFn_Asc)
    have "list_all2 (=) (sort_js ?d xs) (rev (sort_js ?a xs))"
      using ties [OF c]
    proof (rule list.rel_mono_strong)
      fix a b assume "a \<in> set (sort_js ?d xs)" "b \<in> set (rev (sort_js ?a xs))"
        and t: "tied ?a a b"
      then have "a \<in> set xs" "b \<in> set xs" by (simp_all add: set_sort_js)
      then show "a = b" using no_ties_eq [OF nt] t by (simp add: tied_def)
    qed
    then show ?thesis by (simp add: list_all2_eq)
  qed
  have m: "mset (sort_js ?d xs) = mset xs" "mset (rev (sort_js ?a xs)) = mset xs"
    by (simp_all add: mset_sort_js)
  show ?thesis
    using rev ties m consistent_always [OF lc, of f fl rd "set xs"]
      consistent_lastSeen [of "set xs" fl lc rd]
    by blast
qed

text \<open>
  A list without ties, and a list of two records that compare equal.
\<close>

theorem desc_reverse_of_asc_witness:
  "consistent_lc ordinal_lc
   \<and> no_ties (compareFn example_fl ordinal_lc Map.empty ByHealthScore Asc)
       [example_node ''a'' (Some (Num 50)) None, example_node ''c'' (Some (Num 90)) None]
   \<and> sort_js (compareFn example_fl ordinal_lc Map.empty ByHealthScore Desc)
       [example_node ''a'' (Some (Num 50)) None, example_node ''c'' (Some (Num 90)) None]
     = rev (sort_js (compareFn example_fl ordinal_lc Map.empty ByHealthScore Asc)
       [example_node ''a'' (Some (Num 50)) None, example_node ''c'' (Some (Num 90)) None])
   \<and> consistent_on (compareFn example_fl ordinal_lc Map.empty ByHealthScore Asc)
       (set [example_node ''a'' (Some (Num 50)) None, example_node ''b'' (Some (Num 50)) None])
   \<and> list_all2 (tied (compareFn example_fl ordinal_lc Map.empty ByHealthScore Asc))
       (sort_js (compareFn example_fl ordinal_lc Map.empty ByHealthScore Desc)
         [example_node ''a'' (Some (Num 50)) None, example_node ''b'' (Some (Num 50)) None])
       (rev (sort_js (compareFn example_fl ordinal_lc Map.empty ByHealthScore Asc)
         [example_node ''a'' (Some (Num 50)) None, example_node ''b'' (Some (Num 50)) None]))"
proof -
  let ?a = "compareFn example_fl ordinal_lc Map.empty ByHealthScore Asc"
  let ?x = "example_node ''a'' (Some (Num 50)) None"
  let ?y = "example_node ''b'' (Some (Num 50)) None"
  let ?z = "example_node ''c'' (Some (Num 90)) None"
  have nt: "no_ties ?a [?x, ?z]"
    by (simp add: no_ties_def SortCompare_def compareFn_def or_zero_def example_node_def)
  have c: "consistent_on ?a (set [?x, ?y])"
    by (simp add: consistent_on_def le_js_def SortCompare_def compareFn_def or_zero_def
        example_node_def)
  show ?thesis
    using desc_reverse_of_asc
        [OF consistent_ordinal_lc,
          where fl = example_fl and rd = Map.empty and f = ByHealthScore and xs = "[?x, ?z]"]
      desc_reverse_of_asc
        [OF consistent_ordinal_lc,
          where fl = example_fl and rd = Map.empty and f = ByHealthScore and xs = "[?x, ?y]"]
      nt c consistent_ordinal_lc
    by blast
qed

text \<open>
  C4 as stated fails on a list with an unparsable \<open>lastSeen\<close>, sorted by
  \<open>lastSeen\<close>: the record in the middle compares equal to both others, both sorts
  leave the list as it is, and the descending sort and the reverse of the ascending sort
  differ in the order of the first and the last record, which do not compare equal.
\<close>

theorem desc_reverse_unparsable:
  "\<not> list_all2 (tied (compareFn example_fl ordinal_lc Map.empty ByLastSeen Asc))
       (sort_js (compareFn example_fl ordinal_lc Map.empty ByLastSeen Desc)
         [example_node ''a'' None (Some 3), example_node ''b'' None None,
          example_node ''c'' None (Some 1)])
       (rev (sort_js (compareFn example_fl ordinal_lc Map.empty ByLastSeen Asc)
         [example_node ''a'' None (Some 3), example_node ''b'' None None,
          example_node ''c'' None (Some 1)]))
   \<and> tied (compareFn example_fl ordinal_lc Map.empty ByLastSeen Asc)
     (example_node ''a'' None (Some 3)) (example_node ''b'' None None)
   \<and> \<not> tied (compareFn example_fl ordinal_lc Map.empty ByLastSeen Asc)
     (example_node ''a'' None (Some 3)) (example_node ''c'' None (Some 1))
   \<and> sort_js (compareFn example_fl ordinal_lc Map.empty ByLastSeen Desc)
       [example_node ''a'' None (Some 3), example_node ''b'' None None,
        example_node ''c'' None (Some 1)]
     = [example_node ''a'' None (Some 3), example_node ''b'' None None,
        example_node ''c'' None (Some 1)]
   \<and> rev (sort_js (compareFn example_fl ordinal_lc Map.empty ByLastSeen Asc)
       [example_node ''a'' None (Some 3), example_node ''b'' None None,
        example_node ''c'' None (Some 1)])
     = [example_node ''c'' None (Some 1), example_node ''b'' None None,
        example_node ''a'' None (Some 3)]"
proof -
  let ?a = "example_node ''a'' None (Some 3)"
  let ?b = "example_node ''b'' None None"
  let ?c = "example_node ''c'' None (Some 1)"
  let ?asc = "compareFn example_fl ordinal_lc Map.empty ByLastSeen Asc"
  let ?desc = "compareFn example_fl ordinal_lc Map.empty ByLastSeen Desc"
  have ab: "le_js ?asc ?a ?b" and bc: "le_js ?asc ?b ?c" and ac: "\<not> le_js ?asc ?a ?c"
    by (simp_all add: le_js_def SortCompare_def compareFn_def lastSeen_try_def getTime_def
        example_node_def)
  have na: "\<not> consistent_on ?asc (set [?a, ?b, ?c])"
    unfolding consistent_on_def using ab bc ac by auto
  have ba: "le_js ?desc ?b ?a" and cb: "le_js ?desc ?c ?b" and ca: "\<not> le_js ?desc ?c ?a"
    by (simp_all add: le_js_def SortCompare_def compareFn_def lastSeen_try_def getTime_def
        example_node_def)
  have nd: "\<not> consistent_on ?desc (set [?a, ?b, ?c])"
    unfolding consistent_on_def using ba cb ca by auto
  have sa: "sort_js ?asc [?a, ?b, ?c] = [?a, ?b, ?c]"
    unfolding sort_js_def using na
    by (simp add: arrayTimSort_def binaryInsertionSort_def SortCompare_def compareFn_def
        lastSeen_try_def getTime_def example_node_def)
  have sd: "sort_js ?desc [?a, ?b, ?c] = [?a, ?b, ?c]"
    unfolding sort_js_def using nd
    by (simp add: arrayTimSort_def binaryInsertionSort_def SortCompare_def compareFn_def
        lastSeen_try_def getTime_def example_node_def)
  have t: "tied ?asc ?a ?b" "\<not> tied ?asc ?a ?c"
    by (simp_all add: tied_def SortCompare_def compareFn_def lastSeen_try_def getTime_def
        example_node_def)
  show ?thesis unfolding sa sd using t by simp
qed

section \<open>Storage keys\<close>

text \<open>
  C5, as amended.  The key of the \<open>storageUsed\<close> sort is the ratio
  \<open>storageUsed / storageTotal\<close> (not the bytes used) when \<open>storageTotal\<close> is above \<open>0\<close>,
  and \<open>0\<close> otherwise, so \<open>0\<close> whenever \<open>storageTotal\<close> is \<open>0\<close>.  The key of the
  \<open>storageUtilization\<close> sort is the record's own \<open>storageUtilization\<close> when it has one;
  otherwise it is the ratio times 100 when \<open>storageTotal\<close> is above \<open>0\<close>, and \<open>0\<close> when
  it is not.  So a record with \<open>storageTotal = 0\<close> sorts as \<open>0\<close> under \<open>storageUsed\<close>,
  and under \<open>storageUtilization\<close> when it has no \<open>storageUtilization\<close> of its own: its
  key is then the number \<open>0\<close>, not NaN or Infinity, and two such records compare as \<open>0\<close>.
\<close>

theorem storage_keys:
  "comparison fl lc rd ByStorageUsed a b = jsub (storageRatio fl a) (storageRatio fl b)
   \<and> (jpos (storageTotal a) \<longrightarrow>
        storageRatio fl a = jdiv fl (storageUsed a) (storageTotal a))
   \<and> (\<not> jpos (storageTotal a) \<longrightarrow> storageRatio fl a = Num 0)
   \<and> (storageTotal a = Num 0 \<longrightarrow> storageRatio fl a = Num 0 \<and> finite_num (storageRatio fl a))
   \<and> comparison fl lc rd ByStorageUtilization a b = jsub (storageUtil fl a) (storageUtil fl b)
   \<and> (\<forall>u. storageUtilization a = Some u \<longrightarrow> storageUtil fl a = u)
   \<and> (storageUtilization a = None \<and> jpos (storageTotal a) \<longrightarrow>
        storageUtil fl a = jmul fl (jdiv fl (storageUsed a) (storageTotal a)) (Num 100))
   \<and> (storageUtilization a = None \<and> \<not> jpos (storageTotal a) \<longrightarrow> storageUtil fl a = Num 0)
   \<and> (storageUtilization a = None \<and> storageTotal a = Num 0 \<longrightarrow>
        storageUtil fl a = Num 0 \<and> finite_num (storageUtil fl a))
   \<and> (storageTotal a = Num 0 \<and> storageTotal b = Num 0 \<longrightarrow>
        comparison fl lc rd ByStorageUsed a b = Num 0)
   \<and> (storageTotal a = Num 0 \<and> storageTotal b = Num 0
        \<and> storageUtilization a = None \<and> storageUtilization b = None \<longrightarrow>
        comparison fl lc rd ByStorageUtilization a b = Num 0)"
proof -
  have c2: "jpos (storageTotal a) \<longrightarrow>
        storageRatio fl a = jdiv fl (storageUsed a) (storageTotal a)"
    by (simp add: storageRatio_def)
  have c3: "\<not> jpos (storageTotal a) \<longrightarrow> storageRatio fl a = Num 0"
    by (simp add: storageRatio_def)
  have c4: "storageTotal a = Num 0 \<longrightarrow>
      storageRatio fl a = Num 0 \<and> finite_num (storageRatio fl a)"
    by (simp add: storageRatio_def finite_num_def)
  have c6: "\<forall>u. storageUtilization a = Some u \<longrightarrow> storageUtil fl a = u"
    by (simp add: storageUtil_def)
  have c7: "storageUtilization a = None \<and> jpos (storageTotal a) \<longrightarrow>
        storageUtil fl a = jmul fl (jdiv fl (storageUsed a) (storageTotal a)) (Num 100)"
    by (simp add: storageUtil_def)
  have c8: "storageUtilization a = None \<and> \<not> jpos (storageTotal a) \<longrightarrow> storageUtil fl a = Num 0"
    by (simp add: storageUtil_def)
  have c9: "storageUtilization a = None \<and> storageTotal a = Num 0 \<longrightarrow>
        storageUtil fl a = Num 0 \<and> finite_num (storageUtil fl a)"
    by (simp add: storageUtil_def finite_num_def)
  have c10: "storageTotal a = Num 0 \<and> storageTotal b = Num 0 \<longrightarrow>
        comparison fl lc rd ByStorageUsed a b = Num 0"
    by (simp add: storageRatio_def)
  have c11: "storageTotal a = Num 0 \<and> storageTotal b = Num 0
        \<and> storageUtilization a = None \<and> storageUtilization b = None \<longrightarrow>
        comparison fl lc rd ByStorageUtilization a b = Num 0"
    by (simp add: storageUtil_def)
  show ?thesis using c2 c3 c4 c6 c7 c8 c9 c10 c11 by simp
qed

text \<open>
  A record with \<open>storageTotal = 0\<close> and no \<open>storageUtilization\<close>, against one that
  uses a quarter of its storage.
\<close>

theorem storage_keys_witness:
  "storageTotal (example_node ''a'' None None) = Num 0
   \<and> storageUtilization (example_node ''a'' None None) = None
   \<and> storageRatio example_fl (example_node ''a'' None None) = Num 0
   \<and> storageUtil example_fl (example_node ''a'' None None) = Num 0
   \<and> jpos (storageTotal
        ((example_node ''b'' None None)\<lparr>storageUsed := Num 1, storageTotal := Num 4\<rparr>))
   \<and> storageRatio example_fl
        ((example_node ''b'' None None)\<lparr>storageUsed := Num 1, storageTotal := Num 4\<rparr>)
      = Num (1 / 4)
   \<and> storageUtil example_fl
        ((example_node ''b'' None None)\<lparr>storageUsed := Num 1, storageTotal := Num 4\<rparr>)
      = Num 25
   \<and> comparison example_fl ordinal_lc Map.empty ByStorageUsed
        (example_node ''a'' None None)
        ((example_node ''b'' None None)\<lparr>storageUsed := Num 1, storageTotal := Num 4\<rparr>)
      = Num (- (1 / 4))
   \<and> comparison example_fl ordinal_lc Map.empty ByStorageUsed
        (example_node ''a'' None None) (example_node ''c'' None None)
      = Num 0"
proof -
  let ?a = "example_node ''a'' None None"
  let ?b = "(example_node ''b'' None None)\<lparr>storageUsed := Num 1, storageTotal := Num 4\<rparr>"
  let ?c = "example_node ''c'' None None"
  have t: "storageTotal ?a = Num 0" "storageUtilization ?a = None" "storageTotal ?c = Num 0"
    by (simp_all add: example_node_def)
  have b: "jpos (storageTotal ?b)" "storageUtilization ?b = None"
    by (simp_all add: example_node_def)
  have d: "jdiv example_fl (storageUsed ?b) (storageTotal ?b) = Num (1 / 4)"
      "jmul example_fl (Num (1 / 4)) (Num 100) = Num 25"
    by (simp_all add: example_node_def example_fl_def)
  have ra: "storageRatio example_fl ?a = Num 0" and ua: "storageUtil example_fl ?a = Num 0"
    and ac: "comparison example_fl ordinal_lc Map.empty ByStorageUsed ?a ?c = Num 0"
    using storage_keys [where fl = example_fl and lc = ordinal_lc and rd = Map.empty
        and a = ?a and b = ?c] t
    by blast+
  have rb: "storageRatio example_fl ?b = jdiv example_fl (storageUsed ?b) (storageTotal ?b)"
    and ub: "storageUtil example_fl ?b
      = jmul example_fl (jdiv example_fl (storageUsed ?b) (storageTotal ?b)) (Num 100)"
    using storage_keys [where fl = example_fl and lc = ordinal_lc and rd = Map.empty
        and a = ?b and b = ?a] b
    by blast+
  have ab: "comparison example_fl ordinal_lc Map.empty ByStorageUsed ?a ?b
      = jsub (storageRatio example_fl ?a) (storageRatio example_fl ?b)"
    using storage_keys [where fl = example_fl and lc = ordinal_lc and rd = Map.empty
        and a = ?a and b = ?b]
    by blast
  show ?thesis
    unfolding ab ra ua ac rb ub d using t b by simp
qed

text \<open>
  C5 as stated fails for the \<open>storageUtilization\<close> sort: a record with
  \<open>storageTotal = 0\<close> and \<open>storageUtilization = 50\<close> sorts as \<open>50\<close>, not as \<open>0\<close>.
\<close>

theorem storage_utilization_explicit:
  "storageTotal ((example_node ''a'' None None)\<lparr>storageUtilization := Some (Num 50)\<rparr>) = Num 0
   \<and> storageUtil example_fl
        ((example_node ''a'' None None)\<lparr>storageUtilization := Some (Num 50)\<rparr>) = Num 50
   \<and> comparison example_fl ordinal_lc Map.empty ByStorageUtilization
        ((example_node ''a'' None None)\<lparr>storageUtilization := Some (Num 50)\<rparr>)
        (example_node ''b'' None None)
      = Num 50"
  by (simp add: storageUtil_def example_node_def)

section \<open>Unparsable dates\<close>

text \<open>
  C6.  The claim: when the \<open>lastSeen\<close> of one of two records is unparsable, sorting by
  \<open>lastSeen\<close> raises no exception and the comparator yields \<open>0\<close>.  The source sets the
  comparison to \<open>0\<close> in a \<open>catch\<close> branch, which is never reached: the \<open>try\<close> block
  completes without an exception, with the difference NaN, and the comparator returns NaN
  in both directions, not \<open>0\<close>.  The sort reads a NaN result as \<open>0\<close>, so the two records
  do compare equal.  Here on a record with an unparsable \<open>lastSeen\<close> against one with a
  valid \<open>lastSeen\<close>.
\<close>

theorem lastSeen_unparsable_NaN:
  "lastSeen_try (example_node ''a'' None None) (example_node ''b'' None (Some 1700000000000))
     = Inr NaN
   \<and> compareFn example_fl ordinal_lc Map.empty ByLastSeen Asc
       (example_node ''a'' None None) (example_node ''b'' None (Some 1700000000000)) = NaN
   \<and> compareFn example_fl ordinal_lc Map.empty ByLastSeen Desc
       (example_node ''a'' None None) (example_node ''b'' None (Some 1700000000000)) = NaN
   \<and> compareFn example_fl ordinal_lc Map.empty ByLastSeen Asc
       (example_node ''a'' None None) (example_node ''b'' None (Some 1700000000000)) \<noteq> Num 0
   \<and> SortCompare (compareFn example_fl ordinal_lc Map.empty ByLastSeen Asc)
       (example_node ''a'' None None) (example_node ''b'' None (Some 1700000000000)) = Num 0"
  by (simp add: SortCompare_def compareFn_def lastSeen_try_def getTime_def example_node_def)

section \<open>The health score cell, evaluated\<close>

text \<open>
  C7.  The claim: the cell shows \<open>N/A\<close> for an absent health score and \<open>0.0\<close> for a
  health score that is present and equal to \<open>0\<close>.  The cell tests the truthiness of the
  score, so on a record whose health score is \<open>0\<close> it shows \<open>N/A\<close>, the text of the
  absent score, and not \<open>toFixed(1)\<close> of \<open>0\<close>.  The cell of the storage utilization
  tests for \<open>undefined\<close>, and shows a utilization of \<open>0\<close> as a number.
\<close>

theorem healthScoreCell_zero:
  "healthScoreCell (example_node ''abc'' (Some (Num 0)) None) = Text ''N/A''
   \<and> healthScoreCell (example_node ''abc'' None None) = Text ''N/A''
   \<and> healthScoreCell (example_node ''abc'' (Some (Num 0)) None) \<noteq> ToFixed (Num 0) 1
   \<and> storageUtilizationCell calculatePercentage
        ((example_node ''abc'' None None)\<lparr>storageUtilization := Some (Num 0)\<rparr>)
      = Percent (ToFixed (Num 0) 1)"
  by (simp add: healthScoreCell_def storageUtilizationCell_def example_node_def)

section \<open>Recent markers\<close>

text \<open>
  C8, as amended.  A marker pulses exactly when the node is online and its \<open>lastSeen\<close> is
  a valid time later than five minutes before the time of evaluation.  For a \<open>lastSeen\<close>
  that is not later than the time of evaluation, that is: within the last five minutes.
  A node with an unparsable \<open>lastSeen\<close> does not pulse.  An online node last seen ten
  minutes ago does not pulse, one last seen two minutes ago does.
\<close>

theorem isRecent_iff:
  "isRecent now node =
     (MapNode.status node = Online
      \<and> (\<exists>ms. MapNode.lastSeen node = Some ms \<and> now - 5 * 60 * 1000 < ms))
   \<and> (\<forall>ms. MapNode.lastSeen node = Some ms \<and> ms \<le> now \<longrightarrow>
        isRecent now node = (MapNode.status node = Online \<and> within_last_5_minutes now ms))
   \<and> (MapNode.lastSeen node = None \<longrightarrow> \<not> isRecent now node)
   \<and> \<not> isRecent now (example_marker Online (Some (now - 10 * 60 * 1000)))
   \<and> isRecent now (example_marker Online (Some (now - 2 * 60 * 1000)))
   \<and> pulseClass (createMarkerIcon fl now node)
      = (if isRecent now node then ''animate-pulse'' else [])"
  by (auto simp: isRecent_def within_last_5_minutes_def example_marker_def createMarkerIcon_def
      Let_def split: option.splits)

text \<open>
  Two minutes and ten minutes before a time of evaluation, and no valid time.
\<close>

theorem isRecent_iff_witness:
  "MapNode.lastSeen (example_marker Online (Some (1700000000000 - 2 * 60 * 1000)))
     = Some (1700000000000 - 2 * 60 * 1000)
   \<and> within_last_5_minutes 1700000000000 (1700000000000 - 2 * 60 * 1000)
   \<and> isRecent 1700000000000 (example_marker Online (Some (1700000000000 - 2 * 60 * 1000)))
   \<and> \<not> within_last_5_minutes 1700000000000 (1700000000000 - 10 * 60 * 1000)
   \<and> \<not> isRecent 1700000000000 (example_marker Online (Some (1700000000000 - 10 * 60 * 1000)))
   \<and> \<not> isRecent 1700000000000 (example_marker Offline (Some (1700000000000 - 2 * 60 * 1000)))
   \<and> \<not> isRecent 1700000000000 (example_marker Online None)"
  using isRecent_iff [where now = 1700000000000
      and node = "example_marker Online (Some (1700000000000 - 2 * 60 * 1000))"]
    isRecent_iff [where now = 1700000000000
      and node = "example_marker Online (Some (1700000000000 - 10 * 60 * 1000))"]
    isRecent_iff [where now = 1700000000000
      and node = "example_marker Offline (Some (1700000000000 - 2 * 60 * 1000))"]
    isRecent_iff [where now = 1700000000000 and node = "example_marker Online None"]
  by (simp add: within_last_5_minutes_def example_marker_def)

text \<open>
  C8 as stated fails for a \<open>lastSeen\<close> later than the time of evaluation: an online node
  last seen an hour after it pulses, and that time is not within the last five minutes.
\<close>

theorem isRecent_future:
  "isRecent 1700000000000 (example_marker Online (Some (1700000000000 + 60 * 60 * 1000)))
   \<and> \<not> within_last_5_minutes 1700000000000 (1700000000000 + 60 * 60 * 1000)"
  by (simp add: isRecent_def within_last_5_minutes_def example_marker_def)

section \<open>Popup placement\<close>

text \<open>
  C9.  The claim: a point in the filter region gets the left offset, a point in the
  legend region the right offset, every other point the offset above the point.  Every
  branch of \<open>adjustPopupPosition\<close> sets the offset by \<open>popup.setOffset\<close>, which the popup
  does not have: for every point and every size of the map the call raises a
  \<open>TypeError\<close> and the popup is as it was.  On a map of 1000 by 800 the point
  \<open>(900, 100)\<close> is in the filter region, and the popup keeps the offset \<open>(0, - 10)\<close> that
  \<open>bindPopup\<close> gave it; with a \<open>setOffset\<close> that stores its argument the offset would be
  \<open>(- 330, - 10)\<close>.
\<close>

theorem adjustPopupPosition_raises:
  "adjustPopupPosition None mapSize markerPoint popup = (Some TypeError, popup)
   \<and> isNearFilters (1000, 800) (900, 100)
   \<and> adjustPopupPosition None (1000, 800) (900, 100) bindPopup = (Some TypeError, bindPopup)
   \<and> offset (options (snd (adjustPopupPosition None (1000, 800) (900, 100) bindPopup)))
      = (0, - 10)
   \<and> offset (options (snd (adjustPopupPosition (Some store_offset) (1000, 800) (900, 100)
        bindPopup)))
      = (- 330, - 10)"
  by (simp add: adjustPopupPosition_def call_setOffset_def isNearFilters_def filterArea_def
      bindPopup_def store_offset_def popupWidth_def)

section \<open>The input array\<close>

text \<open>
  C10.  For an input array that is allocated, the pipeline leaves it, and every other
  array allocated before, as it was; the view is a new array, and it holds
  \<open>filteredAndSorted\<close> of the input.
\<close>

theorem input_array_unchanged:
  assumes "pnodes < next_ref h"
  shows "(case filteredAndSorted_heap fl lc pnodes vs h of
            (r, h') \<Rightarrow>
              arrays h' pnodes = arrays h pnodes
              \<and> r \<noteq> pnodes
              \<and> arrays h' r = filteredAndSorted fl lc (arrays h pnodes) vs
              \<and> (\<forall>q<next_ref h. arrays h' q = arrays h q))"
  using assms
  by (auto simp: filteredAndSorted_heap_def filteredAndSorted_def spread_def array_filter_def
      array_sort_def array_dedupe_def alloc_def Let_def filterSearch_def filterStatus_def
      filterTier_def split: choice.splits)

text \<open>
  An input of two records in ascending order of health score, and a view in descending
  order: the input keeps its order.
\<close>

theorem input_array_unchanged_witness:
  "0 < next_ref (example_heap
      [example_node ''a'' (Some (Num 50)) None, example_node ''b'' (Some (Num 90)) None])
   \<and> arrays (snd (filteredAndSorted_heap example_fl ordinal_lc 0 (example_state ByHealthScore Desc)
        (example_heap
          [example_node ''a'' (Some (Num 50)) None, example_node ''b'' (Some (Num 90)) None]))) 0
     = [example_node ''a'' (Some (Num 50)) None, example_node ''b'' (Some (Num 90)) None]
   \<and> arrays (snd (filteredAndSorted_heap example_fl ordinal_lc 0 (example_state ByHealthScore Desc)
        (example_heap
          [example_node ''a'' (Some (Num 50)) None, example_node ''b'' (Some (Num 90)) None])))
       (fst (filteredAndSorted_heap example_fl ordinal_lc 0 (example_state ByHealthScore Desc)
        (example_heap
          [example_node ''a'' (Some (Num 50)) None, example_node ''b'' (Some (Num 90)) None])))
     = [example_node ''b'' (Some (Num 90)) None, example_node ''a'' (Some (Num 50)) None]"
proof -
  let ?xs = "[example_node ''a'' (Some (Num 50)) None, example_node ''b'' (Some (Num 90)) None]"
  let ?vs = "example_state ByHealthScore Desc"
  have n: "0 < next_ref (example_heap ?xs)" by (simp add: example_heap_def)
  have a: "arrays (example_heap ?xs) 0 = ?xs" by (simp add: example_heap_def)
  have f: "filteredAndSorted example_fl ordinal_lc ?xs ?vs
      = [example_node ''b'' (Some (Num 90)) None, example_node ''a'' (Some (Num 50)) None]"
    by (simp add: filteredAndSorted_def example_state_def filterSearch_def filterStatus_def
        filterTier_def trim_def sort_js_consistent [OF consistent_healthScore_desc]
        insertion_sort_def SortCompare_def compareFn_def or_zero_def dedupe_def
        example_node_def)
  show ?thesis
    using input_array_unchanged [OF n, where fl = example_fl and lc = ordinal_lc and vs = ?vs] n
    by (simp add: case_prod_beta a f)
qed

end
